theory Spec2Isabelle
  imports Complex_Main "HOL-Library.AList"
begin

section \<open>Strings\<close>

text \<open>
  JavaScript strings are modelled as \<open>string\<close>. The source uses four string operations:
  \<open>s.indexOf(t)\<close> (first position of \<open>t\<close> in \<open>s\<close>, or \<open>-1\<close>), \<open>s.substring(n)\<close>,
  \<open>s.split('/')\<close> and the test \<open>/^\d+$/\<close> followed by \<open>parseInt(s, 10)\<close>.
\<close>

fun startsWith :: "string \<Rightarrow> string \<Rightarrow> bool" where
  "startsWith s [] = True"
| "startsWith [] (c # t) = False"
| "startsWith (d # s) (c # t) = (d = c \<and> startsWith s t)"

fun indexOf :: "string \<Rightarrow> string \<Rightarrow> int" where
  "indexOf [] t = (if t = [] then 0 else - 1)"
| "indexOf (c # s) t =
     (if startsWith (c # s) t then 0
      else (let i = indexOf s t in if i = - 1 then - 1 else i + 1))"

definition substring :: "string \<Rightarrow> nat \<Rightarrow> string" where
  "substring s n = drop n s"

fun split :: "string \<Rightarrow> char \<Rightarrow> string list" where
  "split [] sep = [[]]"
| "split (c # s) sep =
     (if c = sep then [] # split s sep
      else (case split s sep of [] \<Rightarrow> [[c]] | w # ws \<Rightarrow> (c # w) # ws))"

text \<open>Joining with a separator, to say what \<open>split\<close> returns.\<close>

fun join :: "char \<Rightarrow> string list \<Rightarrow> string" where
  "join sep [] = []"
| "join sep [w] = w"
| "join sep (w # v # ws) = w @ sep # join sep (v # ws)"

definition is_digit :: "char \<Rightarrow> bool" where
  "is_digit c = (48 \<le> (of_char c :: nat) \<and> (of_char c :: nat) \<le> 57)"

text \<open>The regular expression \<open>/^\d+$/\<close>: one or more decimal digits and nothing else.\<close>

definition all_digits :: "string \<Rightarrow> bool" where
  "all_digits s = (s \<noteq> [] \<and> list_all is_digit s)"

text \<open>
  \<open>parseInt(s, 10)\<close> on a string of decimal digits returns the Number nearest to the
  integer the digits denote. A Number is a double: an integer below \<open>2 ^ 53\<close> is itself, a
  greater one is rounded to 53 significant bits, a tie to the even neighbour, and one that
  rounds to \<open>2 ^ 1024\<close> or more is \<open>Infinity\<close> (here \<open>None\<close>). \<open>excess_bits n\<close> is the number
  of bits \<open>n\<close> has beyond 53.
\<close>

definition digits_value :: "string \<Rightarrow> nat" where
  "digits_value s = fold (\<lambda>c n. 10 * n + (of_char c - 48)) s 0"

fun excess_bits :: "nat \<Rightarrow> nat" where
  "excess_bits n = (if n < 2 ^ 53 then 0 else Suc (excess_bits (n div 2)))"

definition nearest_double :: "nat \<Rightarrow> int option" where
  "nearest_double n =
     (let e = excess_bits n;
          q = n div 2 ^ e;
          r = n mod 2 ^ e;
          up = (2 ^ e < 2 * r \<or> (2 ^ e = 2 * r \<and> odd q));
          m = (if up then q + 1 else q) * 2 ^ e
      in if m < 2 ^ 1024 then Some (int m) else None)"

section \<open>Values\<close>

text \<open>
  Wire JSON, as the transport collaborator hands it over and receives it. An object is the
  list of its entries in insertion order.
\<close>

datatype json =
    JNull
  | JBool bool
  | JNum int
  | JStr string
  | JArr "json list"
  | JObj "(string \<times> json) list"

text \<open>
  Values given to the outbound transform: JSON, plus \<open>Date\<close> instances (represented by
  their time value, the result of \<open>getTime()\<close>) and \<open>Item\<close> instances (represented by what
  the transform reads of them: \<open>uri\<close> when it is a string, and the own enumerable
  properties).
\<close>

datatype oval =
    ONull
  | OBool bool
  | ONum int
  | OStr string
  | OArr "oval list"
  | OObj "(string \<times> oval) list"
  | ODate int
  | OItem "string option" "(string \<times> oval) list"

text \<open>
  What \<open>new Date(x)\<close> builds: from a number, the date with that time value when it is
  within the range of time values (at most 8.64e15 milliseconds from the epoch), the invalid
  date otherwise; from anything else, the date the engine derives from \<open>x\<close>, left symbolic.
\<close>

datatype date = TimeValue int | InvalidDate | DateOf json

definition new_Date :: "json \<Rightarrow> date" where
  "new_Date x =
     (case x of
        JNum m \<Rightarrow> if \<bar>m\<bar> \<le> 8640000000000000 then TimeValue m else InvalidDate
      | _ \<Rightarrow> DateOf x)"

type_synonym addr = nat

text \<open>
  Values produced by the inbound transform and by \<open>fetch\<close>: an \<open>Item\<close> instance and a
  \<open>Pagination\<close> cursor are references into the heap, so that identity can be told from
  equality of contents. A Number is an integer or \<open>Infinity\<close>.
\<close>

datatype val =
    VUndefined
  | VNull
  | VBool bool
  | VNum int
  | VInfinity
  | VStr string
  | VArr "val list"
  | VObj "(string \<times> val) list"
  | VDate date
  | VItem addr
  | VCursor addr

text \<open>
  A rejection reason or a thrown value: an \<open>Error\<close> instance with its message, or any
  other value.
\<close>

datatype reason = Error string | Reason val

text \<open>
  Property assignment \<open>o[k] = v\<close> on an object is \<^const>\<open>AList.update\<close>: an existing key keeps
  its position, a new key is appended. \<open>Object.assign(target, source)\<close> assigns the entries
  of the source in order.
\<close>

definition assign :: "(string \<times> 'a) list \<Rightarrow> (string \<times> 'a) list \<Rightarrow> (string \<times> 'a) list" where
  "assign target source = fold (\<lambda>(k, v) t. AList.update k v t) source target"

text \<open>Property lookup \<open>o[k]\<close> on an object given by its entries.\<close>

definition get_prop :: "(string \<times> 'a) list \<Rightarrow> string \<Rightarrow> 'a option" where
  "get_prop kvs k = map_of kvs k"

section \<open>Collaborators that are not part of the source\<close>

text \<open>
  The naming codec (\<open>toCamelCase\<close>, \<open>toSnakeCase\<close>, \<open>fromCamelCase\<close> of \<open>utils\<close>) and the
  built-in \<open>decodeURIComponent\<close> (which throws on a malformed escape: \<open>Inl\<close> of what it throws)
  are parameters of the model.
\<close>

record helpers =
  toCamelCase :: "string \<Rightarrow> string"
  toSnakeCase :: "string \<Rightarrow> string"
  fromCamelCase :: "string \<Rightarrow> string"
  decodeURIComponent :: "string \<Rightarrow> reason + string"

text \<open>
  Modelled from the spec: \<open>mapToObject\<close>, \<open>omap\<close> and \<open>deepOmap\<close> of \<open>utils\<close> are missing
  from the source. \<open>mapToObject\<close> collects the entries of a \<open>Map\<close> into a plain mapping;
  \<open>omap\<close> rewrites the keys of a plain object through the naming codec with the values
  transformed; \<open>deepOmap\<close> deep-renames all keys of a document. An object is built by
  assigning the pairs in order.
\<close>

definition pairsToObject :: "(string \<times> 'a) list \<Rightarrow> (string \<times> 'a) list" where
  "pairsToObject kvs = assign [] kvs"

fun scalar :: "json \<Rightarrow> val" where
  "scalar JNull = VNull"
| "scalar (JBool b) = VBool b"
| "scalar (JNum n) = VNum n"
| "scalar (JStr s) = VStr s"
| "scalar (JArr xs) = VArr []"
| "scalar (JObj kvs) = VObj []"

fun deepOmap :: "(string \<Rightarrow> string) \<Rightarrow> json \<Rightarrow> val" where
  "deepOmap f (JArr xs) = VArr (map (deepOmap f) xs)"
| "deepOmap f (JObj kvs) = VObj (pairsToObject (map (\<lambda>(k, v). (f k, deepOmap f v)) kvs))"
| "deepOmap f j = scalar j"

section \<open>The client and the heap\<close>

type_synonym resource = string

record item =
  ctor :: resource
  props :: "(string \<times> val) list"

record fetch_options =
  o_method :: "string option"
  search :: "addr option"
  data :: "oval option"
  cache_flag :: bool
  paginate :: bool

record request_options =
  r_method :: "string option"
  r_search :: "json option"
  r_data :: "json option"
  r_cache :: bool
  r_paginate :: bool


text \<open>
  A \<open>Pagination\<close> cursor. The total count is a number; the page and the page size are
  whatever the stored search options hold.
\<close>

record pagination =
  p_uri :: string
  p_options :: addr
  p_pointer :: nat
  p_items :: "val list"
  p_page :: "oval option"
  p_perPage :: "oval option"
  p_total :: int

text \<open>
  One call of the transport collaborator \<open>request\<close>: the address and the options it is
  given, and what the continuation chained on its result has captured (the normalised URI,
  the options copy, \<open>paginate\<close> and the pagination target).
\<close>

record call =
  url :: string
  sent :: request_options
  c_uri :: string
  c_options :: addr
  c_paginate :: bool
  c_pagination :: "addr option"

text \<open>
  The client (\<open>PotionBase\<close>) with the objects it shares with its callers. The registry
  \<open>resources\<close> is an object, iterated in insertion order. The Pending Request Table maps a
  URI to the promise of a transport call, named by the position of the call in \<open>requests\<close>
  (the log of the calls of the transport collaborator). Objects passed by reference live in
  a heap: \<open>Item\<close> instances, options objects, search objects and cursors; an address below
  the counter of its kind is allocated.
\<close>

record potion =
  host :: string
  prefix :: string
  resources :: "(string \<times> resource) list"
  cache :: "string \<rightharpoonup> addr"
  pendingGETRequests :: "string \<rightharpoonup> nat"
  requests :: "call list"
  items :: "addr \<Rightarrow> item"
  next_item :: addr
  option_objs :: "addr \<Rightarrow> fetch_options"
  next_options :: addr
  search_objs :: "addr \<Rightarrow> (string \<times> oval) list"
  next_search :: addr
  cursors :: "addr \<Rightarrow> pagination"
  next_cursor :: addr

text \<open>
  Modelled from the spec: the default Identity Cache (\<open>MemCache\<close> of \<open>utils\<close>) is missing
  from the source. It is an unbounded mapping from URI to instance: \<open>get\<close> returns the
  instance or nothing, \<open>put\<close> stores it.
\<close>

definition cache_get :: "potion \<Rightarrow> string \<Rightarrow> addr option" where
  "cache_get p key = cache p key"

definition cache_put :: "potion \<Rightarrow> string \<Rightarrow> addr \<Rightarrow> potion" where
  "cache_put p key a = p\<lparr>cache := (cache p)(key \<mapsto> a)\<rparr>"

text \<open>\<open>Reflect.construct(resource, [properties])\<close>: a new instance with these properties.\<close>

definition construct :: "potion \<Rightarrow> resource \<Rightarrow> (string \<times> val) list \<Rightarrow> addr \<times> potion" where
  "construct p r kvs =
     (let a = next_item p
      in (a, p\<lparr>items := (items p)(a := \<lparr>ctor = r, props = assign [] kvs\<rparr>),
               next_item := Suc a\<rparr>))"

section \<open>URI resolution\<close>

record parsed_uri =
  uri :: string
  resource :: resource
  params :: "string list"

definition unknown_resource :: "string \<Rightarrow> reason" where
  "unknown_resource u =
     Error (''URI '' @ [CHR 0x27] @ u @ [CHR 0x27]
            @ '' is an uninterpretable or unknown potion resource.'')"

text \<open>\<open>parseURI\<close> throws: \<open>Inl\<close> is the exception.\<close>

definition parseURI :: "helpers \<Rightarrow> potion \<Rightarrow> string \<Rightarrow> reason + parsed_uri" where
  "parseURI U p u0 =
     (case decodeURIComponent U u0 of
        Inl e \<Rightarrow> Inl e
      | Inr d \<Rightarrow>
          (let u = (if indexOf d (prefix p) = 0 then substring d (length (prefix p)) else d)
           in case find (\<lambda>(resourceURI, r). indexOf u (resourceURI @ ''/'') = 0) (resources p) of
                Some (resourceURI, r) \<Rightarrow>
                  Inr \<lparr>uri = u, resource = r,
                       params = split (substring u (length resourceURI + 1)) CHR ''/''\<rparr>
              | None \<Rightarrow> Inl (unknown_resource u)))"

section \<open>The outbound transform\<close>

text \<open>Of the client the transform reads the prefix only: \<open>pre\<close> is \<open>this.prefix\<close>.\<close>

fun toPotionJSON :: "helpers \<Rightarrow> string \<Rightarrow> oval \<Rightarrow> json" where
  "toPotionJSON U pre (OItem (Some u) kvs) = JObj [(''$ref'', JStr (pre @ u))]"
| "toPotionJSON U pre (ODate m) = JObj [(''$date'', JNum m)]"
| "toPotionJSON U pre (OArr xs) = JArr (map (toPotionJSON U pre) xs)"
| "toPotionJSON U pre (OItem None kvs) =
     JObj (pairsToObject (map (\<lambda>(k, v). (toSnakeCase U k, toPotionJSON U pre v)) kvs))"
| "toPotionJSON U pre (OObj kvs) =
     JObj (pairsToObject (map (\<lambda>(k, v). (toSnakeCase U k, toPotionJSON U pre v)) kvs))"
| "toPotionJSON U pre ONull = JNull"
| "toPotionJSON U pre (OBool b) = JBool b"
| "toPotionJSON U pre (ONum n) = JNum n"
| "toPotionJSON U pre (OStr s) = JStr s"

section \<open>fetch\<close>

text \<open>
  The promise \<open>fetch\<close> returns: \<open>Promise.resolve(item)\<close> for a cached instance; the promise
  stored in the Pending Request Table; the chain on a new transport call followed by the
  removal of the table entry; or the chain on a new transport call alone.
\<close>

datatype fetched =
    Cached addr
  | Shared nat
  | Tracked nat string
  | Untracked nat

text \<open>\<open>{...fetchOptions}\<close>: the own properties of the caller's object, or none.\<close>

definition spread_options :: "potion \<Rightarrow> addr option \<Rightarrow> fetch_options" where
  "spread_options p fetchOptions =
     (case fetchOptions of
        None \<Rightarrow> \<lparr>o_method = None, search = None, data = None, cache_flag = False,
                 paginate = False\<rparr>
      | Some a \<Rightarrow> option_objs p a)"

text \<open>
  The local closure \<open>fetch\<close> of the source: one call of \<open>request\<close> with the host and the URI,
  the options spread with \<open>search\<close> and \<open>data\<close> encoded.
\<close>

definition fetch_request :: "helpers \<Rightarrow> potion \<Rightarrow> string \<Rightarrow> addr \<Rightarrow> addr option \<Rightarrow> nat \<times> potion" where
  "fetch_request U p u opt pagination =
     (let options = option_objs p opt;
          c = \<lparr>url = host p @ u,
               sent = \<lparr>r_method = o_method options,
                        r_search = map_option (\<lambda>s. toPotionJSON U (prefix p) (OObj (search_objs p s)))
                                     (search options),
                        r_data = map_option (toPotionJSON U (prefix p)) (data options),
                        r_cache = cache_flag options,
                        r_paginate = paginate options\<rparr>,
               c_uri = u, c_options = opt, c_paginate = paginate options,
               c_pagination = pagination\<rparr>
      in (length (requests p), p\<lparr>requests := requests p @ [c]\<rparr>))"

definition normalize_uri :: "potion \<Rightarrow> string \<Rightarrow> string" where
  "normalize_uri p u = (if indexOf u (prefix p) = - 1 then prefix p @ u else u)"

text \<open>
  \<open>Object.assign({page: 1, perPage: 25}, search)\<close> into a new object, stored in the copy of
  the options.
\<close>

definition default_search :: "potion \<Rightarrow> addr \<Rightarrow> potion" where
  "default_search p opt =
     (let options = option_objs p opt;
          s = next_search p;
          merged = assign [(''page'', ONum 1), (''perPage'', ONum 25)]
                     (case search options of None \<Rightarrow> [] | Some a \<Rightarrow> search_objs p a)
      in p\<lparr>search_objs := (search_objs p)(s := merged), next_search := Suc s,
            option_objs := (option_objs p)(opt := options\<lparr>search := Some s\<rparr>)\<rparr>)"

definition fetch :: "helpers \<Rightarrow> potion \<Rightarrow> string \<Rightarrow> addr option \<Rightarrow> addr option \<Rightarrow> fetched \<times> potion" where
  "fetch U p u0 fetchOptions pagination =
     (let opt = next_options p;
          options = spread_options p fetchOptions;
          p1 = p\<lparr>option_objs := (option_objs p)(opt := options), next_options := Suc opt\<rparr>;
          key = u0;
          u = normalize_uri p u0;
          p2 = (if paginate options then default_search p1 opt else p1)
      in if o_method options = Some ''GET'' \<and> search (option_objs p2 opt) = None then
           (case (if cache_flag options then cache_get p2 key else None) of
              Some a \<Rightarrow> (Cached a, p2)
            | None \<Rightarrow>
                (case pendingGETRequests p2 u of
                   Some n \<Rightarrow> (Shared n, p2)
                 | None \<Rightarrow>
                     (let (n, p3) = fetch_request U p2 u opt pagination
                      in (Tracked n u,
                          p3\<lparr>pendingGETRequests := (pendingGETRequests p3)(u \<mapsto> n)\<rparr>))))
         else (let (n, p3) = fetch_request U p2 u opt pagination in (Untracked n, p3)))"


section \<open>The inbound transform\<close>

text \<open>
  \<open>fromPotionJSON\<close> runs in two parts. The call itself walks the whole payload: it
  resolves URIs, pre-registers instances in the Identity Cache, calls \<open>fetch\<close> for the
  references and builds promises. A promise it returns is the tree of what is still to
  happen: the continuations run once the promises below have settled.
\<close>

datatype task =
    Done val
  | Failed reason
  | Await fetched
  | All "task list"
  | ItemT string resource "(string \<times> val) list" "(string \<times> task) list"
  | ObjT "(string \<times> task) list"

definition new_options :: "potion \<Rightarrow> fetch_options \<Rightarrow> addr \<times> potion" where
  "new_options p options =
     (let opt = next_options p
      in (opt, p\<lparr>option_objs := (option_objs p)(opt := options), next_options := Suc opt\<rparr>))"

text \<open>The identifier: \<open>Number.isInteger(id) || /^\d+$/.test(id) ? parseInt(id, 10) : id\<close>.\<close>

definition parseInt :: "string \<Rightarrow> val" where
  "parseInt s = (case nearest_double (digits_value s) of Some n \<Rightarrow> VNum n | None \<Rightarrow> VInfinity)"

definition item_id :: "string list \<Rightarrow> val" where
  "item_id ps =
     (case ps of
        [] \<Rightarrow> VUndefined
      | i # _ \<Rightarrow> if all_digits i then parseInt i else VStr i)"

definition preregister :: "potion \<Rightarrow> parsed_uri \<Rightarrow> potion" where
  "preregister p parsed =
     (case cache_get p (uri parsed) of
        Some a \<Rightarrow> p
      | None \<Rightarrow> (let (a, p') = construct p (resource parsed) [] in cache_put p' (uri parsed) a))"

text \<open>
  The branch an object takes, in the order of the tests of the source:
  \<open>typeof json.$uri === 'string'\<close>, then \<open>typeof json.$schema === 'string'\<close>, then, for an
  object with exactly one key, \<open>typeof json.$ref === 'string'\<close> and
  \<open>typeof json.$date !== 'undefined'\<close>; any other object is a plain mapping.
\<close>

definition string_prop :: "(string \<times> json) list \<Rightarrow> string \<Rightarrow> string option" where
  "string_prop kvs k = (case get_prop kvs k of Some (JStr s) \<Rightarrow> Some s | _ \<Rightarrow> None)"

datatype branch = Resource string | Schema | Ref string | Date json | Plain

definition branch_of :: "(string \<times> json) list \<Rightarrow> branch" where
  "branch_of kvs =
     (case string_prop kvs ''$uri'' of
        Some u \<Rightarrow> Resource u
      | None \<Rightarrow>
          (case string_prop kvs ''$schema'' of
             Some sch \<Rightarrow> Schema
           | None \<Rightarrow>
               (if length kvs = 1 then
                  (case string_prop kvs ''$ref'' of
                     Some r \<Rightarrow> Ref r
                   | None \<Rightarrow> (case get_prop kvs ''$date'' of Some d \<Rightarrow> Date d | None \<Rightarrow> Plain))
                else Plain)))"

text \<open>The \<open>$ref\<close> branch: the self reference, or a cached GET of the parsed URI.\<close>

definition fromPotionJSON_ref :: "helpers \<Rightarrow> potion \<Rightarrow> string \<Rightarrow> task \<times> potion" where
  "fromPotionJSON_ref U p r =
     (if r = ''#'' then (Done (VStr r), p)
      else (case parseURI U p r of
              Inl parseURIError \<Rightarrow> (Failed parseURIError, p)
            | Inr parsed \<Rightarrow>
                (let (opt, p1) = new_options p
                       \<lparr>o_method = Some ''GET'', search = None, data = None,
                        cache_flag = True, paginate = False\<rparr>;
                     (f, p2) = fetch U p1 (uri parsed) (Some opt) None
                 in (Await f, p2))))"

fun fromPotionJSON :: "helpers \<Rightarrow> potion \<Rightarrow> json \<Rightarrow> task \<times> potion"
  and fromPotionJSON_items :: "helpers \<Rightarrow> potion \<Rightarrow> json list \<Rightarrow> task list \<times> potion"
  and fromPotionJSON_entries ::
    "helpers \<Rightarrow> bool \<Rightarrow> potion \<Rightarrow> (string \<times> json) list \<Rightarrow> (string \<times> task) list \<times> potion"
where
  "fromPotionJSON U p (JArr xs) =
     (let (ts, p') = fromPotionJSON_items U p xs in (All ts, p'))"
| "fromPotionJSON U p (JObj kvs) =
     (case branch_of kvs of
        Resource u \<Rightarrow>
          (case parseURI U p u of
             Inl parseURIError \<Rightarrow> (Failed parseURIError, p)
           | Inr parsed \<Rightarrow>
               (let (ts, p2) = fromPotionJSON_entries U True (preregister p parsed) kvs
                in (ItemT (uri parsed) (resource parsed)
                      [(''$uri'', VStr (uri parsed)), (''$id'', item_id (params parsed))] ts,
                    p2)))
      | Schema \<Rightarrow> (Done (deepOmap (toCamelCase U) (JObj kvs)), p)
      | Ref r \<Rightarrow> fromPotionJSON_ref U p r
      | Date d \<Rightarrow> (Done (VDate (new_Date d)), p)
      | Plain \<Rightarrow>
          (let (ts, p') = fromPotionJSON_entries U False p kvs in (ObjT ts, p')))"
| "fromPotionJSON U p j = (Done (scalar j), p)"
| "fromPotionJSON_items U p [] = ([], p)"
| "fromPotionJSON_items U p (x # xs) =
     (let (t, p1) = fromPotionJSON U p x;
          (ts, p2) = fromPotionJSON_items U p1 xs
      in (t # ts, p2))"
| "fromPotionJSON_entries U is_item p [] = ([], p)"
| "fromPotionJSON_entries U is_item p ((key, v) # kvs) =
     (if is_item \<and> key = ''$uri'' then fromPotionJSON_entries U is_item p kvs
      else (let (t, p1) = fromPotionJSON U p v;
                (ts, p2) = fromPotionJSON_entries U is_item p1 kvs
            in ((toCamelCase U key, t) # ts, p2)))"


section \<open>Settlement\<close>

text \<open>
  The two callbacks \<open>fetch\<close> chains on a request it has registered: both delete the entry
  of the Pending Request Table; the second rejects with a message.
\<close>

definition fallback_message :: "string \<Rightarrow> string" where
  "fallback_message u =
     ''An error occurred while Potion tried to retrieve a resource from '' @ [CHR 0x27] @ u
     @ [CHR 0x27] @ ''.''"

definition message_of :: "string \<Rightarrow> reason \<Rightarrow> string" where
  "message_of u err =
     (case err of
        Error m \<Rightarrow> m
      | Reason (VStr s) \<Rightarrow> s
      | Reason v \<Rightarrow> fallback_message u)"

definition on_fulfilled :: "potion \<Rightarrow> string \<Rightarrow> val \<Rightarrow> (reason + val) \<times> potion" where
  "on_fulfilled p u d = (Inr d, p\<lparr>pendingGETRequests := (pendingGETRequests p)(u := None)\<rparr>)"

definition on_rejected :: "potion \<Rightarrow> string \<Rightarrow> reason \<Rightarrow> (reason + val) \<times> potion" where
  "on_rejected p u err =
     (Inl (Reason (VStr (message_of u err))),
      p\<lparr>pendingGETRequests := (pendingGETRequests p)(u := None)\<rparr>)"

text \<open>
  When and how the chain on a transport call settles is the environment's: \<open>h p n\<close> is the
  outcome with which the chain on call \<open>n\<close> settles, and the state in which it leaves the
  client whose state was \<open>p\<close>. A promise returned by \<open>fetch\<close> settles accordingly: at once
  for a cached instance, with the chain for a shared or an unregistered request, and with
  the chain followed by one of the two callbacks for a registered one.
\<close>

type_synonym handler = "potion \<Rightarrow> nat \<Rightarrow> (reason + val) \<times> potion"

definition await :: "handler \<Rightarrow> potion \<Rightarrow> fetched \<Rightarrow> (reason + val) \<times> potion" where
  "await h p f =
     (case f of
        Cached a \<Rightarrow> (Inr (VItem a), p)
      | Shared n \<Rightarrow> h p n
      | Untracked n \<Rightarrow> h p n
      | Tracked n u \<Rightarrow>
          (let (r, p') = h p n
           in case r of Inr d \<Rightarrow> on_fulfilled p' u d | Inl err \<Rightarrow> on_rejected p' u err))"

text \<open>
  The last continuation of a resource object: merge the properties into the cached
  instance, or construct one and cache it.
\<close>

definition merge :: "potion \<Rightarrow> string \<Rightarrow> resource \<Rightarrow> (string \<times> val) list \<Rightarrow> val \<times> potion" where
  "merge p u r properties =
     (case cache_get p u of
        Some a \<Rightarrow>
          (VItem a,
           p\<lparr>items := (items p)
                (a := (items p a)\<lparr>props := assign (props (items p a)) (pairsToObject properties)\<rparr>)\<rparr>)
      | None \<Rightarrow>
          (let (a, p') = construct p r (pairsToObject properties)
           in (VItem a, cache_put p' u a)))"

text \<open>
  \<open>Promise.all\<close> over the values of the map \<open>promises\<close>: a key set twice keeps the later
  promise only.
\<close>

fun awaited :: "(string \<times> 'a) list \<Rightarrow> 'a list" where
  "awaited [] = []"
| "awaited ((k, r) # krs) = (if k \<in> fst ` set krs then awaited krs else r # awaited krs)"

definition first_rejection :: "(reason + val) list \<Rightarrow> reason option" where
  "first_rejection rs = (case [e. Inl e \<leftarrow> rs] of [] \<Rightarrow> None | e # _ \<Rightarrow> Some e)"

definition fulfilled :: "(string \<times> (reason + val)) list \<Rightarrow> (string \<times> val) list" where
  "fulfilled krs = [(k, v). (k, Inr v) \<leftarrow> krs]"

text \<open>
  The continuations. The promises of a payload settle in the order of the payload, and a
  parent continues once all its children have settled; which of several rejections a
  \<open>Promise.all\<close> reports depends on that order, and here it is the first in the payload.
  The continuation of a property, \<open>properties.set(k, value)\<close>, runs for every child that is
  fulfilled.
\<close>

fun complete :: "handler \<Rightarrow> potion \<Rightarrow> task \<Rightarrow> (reason + val) \<times> potion"
  and complete_all :: "handler \<Rightarrow> potion \<Rightarrow> task list \<Rightarrow> (reason + val) list \<times> potion"
  and complete_entries ::
    "handler \<Rightarrow> potion \<Rightarrow> (string \<times> task) list \<Rightarrow> (string \<times> (reason + val)) list \<times> potion"
where
  "complete h p (Done v) = (Inr v, p)"
| "complete h p (Failed e) = (Inl e, p)"
| "complete h p (Await f) = await h p f"
| "complete h p (All ts) =
     (let (rs, p') = complete_all h p ts
      in (case first_rejection rs of
            Some e \<Rightarrow> (Inl e, p')
          | None \<Rightarrow> (Inr (VArr [v. Inr v \<leftarrow> rs]), p')))"
| "complete h p (ItemT u r properties kts) =
     (let (krs, p') = complete_entries h p kts
      in (case first_rejection (awaited krs) of
            Some e \<Rightarrow> (Inl e, p')
          | None \<Rightarrow> (let (v, p'') = merge p' u r (properties @ fulfilled krs) in (Inr v, p''))))"
| "complete h p (ObjT kts) =
     (let (krs, p') = complete_entries h p kts
      in (case first_rejection (awaited krs) of
            Some e \<Rightarrow> (Inl e, p')
          | None \<Rightarrow> (Inr (VObj (pairsToObject (fulfilled krs))), p')))"
| "complete_all h p [] = ([], p)"
| "complete_all h p (t # ts) =
     (let (r, p1) = complete h p t;
          (rs, p2) = complete_all h p1 ts
      in (r # rs, p2))"
| "complete_entries h p [] = ([], p)"
| "complete_entries h p ((k, t) # kts) =
     (let (r, p1) = complete h p t;
          (krs, p2) = complete_entries h p1 kts
      in ((k, r) # krs, p2))"

text \<open>The whole of \<open>fromPotionJSON\<close>: the call, then the continuations.\<close>

definition decode :: "helpers \<Rightarrow> handler \<Rightarrow> potion \<Rightarrow> json \<Rightarrow> (reason + val) \<times> potion" where
  "decode U h p j = (let (t, p') = fromPotionJSON U p j in complete h p' t)"


section \<open>Pagination\<close>

text \<open>
  \<open>Math.ceil(this._total / this._perPage)\<close>, for a page size that is a number other than
  zero; \<open>None\<close> when the quotient is not a finite number or the page size is not a number.
\<close>

definition pages :: "pagination \<Rightarrow> int option" where
  "pages c =
     (case p_perPage c of
        Some (ONum n) \<Rightarrow> if n = 0 then None else Some \<lceil>real_of_int (p_total c) / real_of_int n\<rceil>
      | _ \<Rightarrow> None)"

definition not_an_object :: reason where
  "not_an_object = Error ''Cannot read properties of undefined''"

definition not_iterable :: reason where
  "not_iterable = Error ''data is not iterable''"

text \<open>
  The constructor reads \<open>page\<close> and \<open>perPage\<close> from \<open>options.search\<close>, which throws when
  there is no search object.
\<close>

definition new_Pagination ::
  "potion \<Rightarrow> string \<Rightarrow> val list \<Rightarrow> int \<Rightarrow> addr \<Rightarrow> (reason + addr) \<times> potion" where
  "new_Pagination p u its count opt =
     (case search (option_objs p opt) of
        None \<Rightarrow> (Inl not_an_object, p)
      | Some s \<Rightarrow>
          (let c = next_cursor p
           in (Inr c,
               p\<lparr>cursors := (cursors p)
                    (c := \<lparr>p_uri = u, p_options = opt, p_pointer = 0, p_items = its,
                           p_page = get_prop (search_objs p s) ''page'',
                           p_perPage = get_prop (search_objs p s) ''perPage'',
                           p_total = count\<rparr>),
                 next_cursor := Suc c\<rparr>)))"

definition update :: "potion \<Rightarrow> addr \<Rightarrow> val list \<Rightarrow> int \<Rightarrow> potion" where
  "update p c its count =
     p\<lparr>cursors := (cursors p)(c := (cursors p c)\<lparr>p_items := its, p_total := count\<rparr>)\<rparr>"

definition changePageTo ::
  "helpers \<Rightarrow> potion \<Rightarrow> addr \<Rightarrow> oval \<Rightarrow> (reason + fetched) \<times> potion" where
  "changePageTo U p c page =
     (let this = cursors p c
      in case search (option_objs p (p_options this)) of
           None \<Rightarrow> (Inl not_an_object, p)
         | Some s \<Rightarrow>
             (let p1 = p\<lparr>search_objs := (search_objs p)
                            (s := AList.update ''page'' page (search_objs p s)),
                         cursors := (cursors p)(c := this\<lparr>p_page := Some page\<rparr>)\<rparr>;
                  (f, p2) = fetch U p1 (p_uri this) (Some (p_options this)) (Some c)
              in (Inr f, p2)))"

section \<open>The chain on a transport call\<close>

text \<open>
  A response is the body and the headers; of the headers the source reads
  \<open>x-total-count\<close>, a number here.
\<close>

record response =
  body :: json
  x_total_count :: "int option"

text \<open>What the spread \<open>...data\<close> iterates: the elements of an array, the characters of a string.\<close>

definition spread :: "val \<Rightarrow> val list option" where
  "spread d =
     (case d of
        VArr xs \<Rightarrow> Some xs
      | VStr s \<Rightarrow> Some (map (\<lambda>c. VStr [c]) s)
      | _ \<Rightarrow> None)"

text \<open>
  The last step of the chain, for the call \<open>c\<close>: return the data, or a new cursor, or update
  the cursor given to \<open>fetch\<close>. The count is \<open>headers['x-total-count'] || data.length\<close>.
\<close>

definition paginate_step :: "potion \<Rightarrow> call \<Rightarrow> int option \<Rightarrow> val \<Rightarrow> (reason + val) \<times> potion" where
  "paginate_step p c header d =
     (if c_paginate c then
        (case spread d of
           None \<Rightarrow> (Inl not_iterable, p)
         | Some its \<Rightarrow>
             (let count = (case header of
                             Some n \<Rightarrow> if n \<noteq> 0 then n else int (length its)
                           | None \<Rightarrow> int (length its))
              in case c_pagination c of
                   None \<Rightarrow>
                     (case new_Pagination p (c_uri c) its count (c_options c) of
                        (Inl e, p') \<Rightarrow> (Inl e, p')
                      | (Inr a, p') \<Rightarrow> (Inr (VCursor a), p'))
                 | Some a \<Rightarrow> (Inr VUndefined, update p a its count)))
      else (Inr d, p))"

text \<open>
  The chain \<open>request(...).then(deserialize).then(...)\<close> on the outcome of the transport
  call \<open>c\<close>.
\<close>

definition chain ::
  "helpers \<Rightarrow> handler \<Rightarrow> potion \<Rightarrow> call \<Rightarrow> reason + response \<Rightarrow> (reason + val) \<times> potion" where
  "chain U h p c outcome =
     (case outcome of
        Inl e \<Rightarrow> (Inl e, p)
      | Inr resp \<Rightarrow>
          (case decode U h p (body resp) of
             (Inl e, p') \<Rightarrow> (Inl e, p')
           | (Inr d, p') \<Rightarrow> paginate_step p' c (x_total_count resp) d))"

section \<open>Serialization of an item\<close>

text \<open>
  \<open>Item.toJSON\<close> works on the own enumerable properties of the instance and on the
  read-only metadata of its constructor: \<open>None\<close> when there is none, otherwise the names
  marked. The lookup \<open>metadata[key]\<close> also finds what every object inherits.
\<close>

definition inherited :: "string list" where
  "inherited = [''constructor'', ''hasOwnProperty'', ''isPrototypeOf'',
     ''propertyIsEnumerable'', ''toLocaleString'', ''toString'', ''valueOf'']"

definition marked :: "string list \<Rightarrow> string \<Rightarrow> bool" where
  "marked metadata key = (key \<in> set metadata \<or> key \<in> set inherited)"

definition kept :: "string list option \<Rightarrow> string \<Rightarrow> bool" where
  "kept metadata key =
     (\<not> startsWith key ''_''
      \<and> (case metadata of None \<Rightarrow> True | Some m \<Rightarrow> \<not> marked m key))"

definition toJSON :: "helpers \<Rightarrow> string list option \<Rightarrow> (string \<times> 'a) list \<Rightarrow> (string \<times> 'a) list" where
  "toJSON U metadata this =
     fold (\<lambda>(key, v) properties. AList.update (fromCamelCase U key) v properties)
       (filter (\<lambda>(key, v). kept metadata key) this) []"

text \<open>
  A key is in wire-case (\<open>foo_bar\<close>, not \<open>fooBar\<close>) when it has no capital letter: what
  marks the words of a camelCase name is absent from it.
\<close>

definition capital :: "char \<Rightarrow> bool" where
  "capital c \<longleftrightarrow> c \<in> set ''ABCDEFGHIJKLMNOPQRSTUVWXYZ''"

definition wire_case :: "string \<Rightarrow> bool" where
  "wire_case w \<longleftrightarrow> (\<forall>c \<in> set w. \<not> capital c)"


section \<open>What an operation leaves as it was\<close>

text \<open>
  \<open>keeps p p'\<close>: from \<open>p\<close> to \<open>p'\<close> the prefix is the same, every entry of the Identity
  Cache is still there with the same instance, and every options object and search object
  allocated in \<open>p\<close> holds what it held. An environment is \<open>quiet\<close> when the chains it settles
  keep the state in this sense (no eviction, no write to an object of a caller).
\<close>

definition keeps :: "potion \<Rightarrow> potion \<Rightarrow> bool" where
  "keeps p p' \<longleftrightarrow>
     prefix p' = prefix p
     \<and> (\<forall>u a. cache p u = Some a \<longrightarrow> cache p' u = Some a)
     \<and> next_options p \<le> next_options p' \<and> next_search p \<le> next_search p'
     \<and> (\<forall>a < next_options p. option_objs p' a = option_objs p a)
     \<and> (\<forall>s < next_search p. search_objs p' s = search_objs p s)"

definition quiet :: "handler \<Rightarrow> bool" where
  "quiet h \<longleftrightarrow> (\<forall>q n. keeps q (snd (h q n)))"


section \<open>A small client for the examples\<close>

text \<open>
  A naming codec in the sense of the case round trip (\<open>fooBar\<close> and \<open>foo_bar\<close>: to
  wire-case, a leading capital is lowered and every other capital becomes an underscore
  and the lower-case letter), a client
  with one registered resource and three options objects (\<open>{method: 'GET'}\<close> at address
  0, \<open>{method: 'GET', cache: true}\<close> at address 1, \<open>{method: 'GET', paginate: true}\<close> at
  address 2), and an environment in which every transport call fails.
\<close>

definition lower_of :: "char \<Rightarrow> char option" where
  "lower_of = map_of (zip ''ABCDEFGHIJKLMNOPQRSTUVWXYZ'' ''abcdefghijklmnopqrstuvwxyz'')"

definition upper_of :: "char \<Rightarrow> char option" where
  "upper_of = map_of (zip ''abcdefghijklmnopqrstuvwxyz'' ''ABCDEFGHIJKLMNOPQRSTUVWXYZ'')"

fun snake_rest :: "string \<Rightarrow> string" where
  "snake_rest [] = []"
| "snake_rest (c # s) =
     (case lower_of c of Some l \<Rightarrow> CHR ''_'' # l # snake_rest s | None \<Rightarrow> c # snake_rest s)"

fun snake_case :: "string \<Rightarrow> string" where
  "snake_case [] = []"
| "snake_case (c # s) = (case lower_of c of Some l \<Rightarrow> l | None \<Rightarrow> c) # snake_rest s"

fun camel_case :: "string \<Rightarrow> string" where
  "camel_case (a # b # s) =
     (if a = CHR ''_'' then (case upper_of b of Some c \<Rightarrow> c | None \<Rightarrow> b) # camel_case s
      else a # camel_case (b # s))"
| "camel_case s = s"

definition U0 :: helpers where
  "U0 = \<lparr>toCamelCase = camel_case, toSnakeCase = snake_case, fromCamelCase = snake_case,
          decodeURIComponent = Inr\<rparr>"

definition no_options :: fetch_options where
  "no_options =
     \<lparr>o_method = None, search = None, data = None, cache_flag = False, paginate = False\<rparr>"

definition client0 :: potion where
  "client0 =
     \<lparr>host = ''http://h'', prefix = ''/api'', resources = [(''/widget'', ''Widget'')],
      cache = Map.empty, pendingGETRequests = Map.empty, requests = [],
      items = (\<lambda>a. \<lparr>ctor = [], props = []\<rparr>), next_item = 0,
      option_objs = (\<lambda>a. no_options)
        (0 := no_options\<lparr>o_method := Some ''GET''\<rparr>,
         1 := no_options\<lparr>o_method := Some ''GET'', cache_flag := True\<rparr>,
         2 := no_options\<lparr>o_method := Some ''GET'', paginate := True\<rparr>),
      next_options = 3,
      search_objs = (\<lambda>a. []), next_search = 0,
      cursors = (\<lambda>a. \<lparr>p_uri = [], p_options = 0, p_pointer = 0, p_items = [],
                         p_page = None, p_perPage = None, p_total = 0\<rparr>),
      next_cursor = 0\<rparr>"

definition h0 :: handler where
  "h0 p n = (Inl (Reason VNull), p)"

text \<open>
  The first page of a query, and the client after a paginated GET of the widgets has been
  answered with it: the client holds a cursor.
\<close>

definition page1 :: response where
  "page1 = \<lparr>body = JArr [JObj [(''$uri'', JStr ''/api/widget/1'')]], x_total_count = Some 101\<rparr>"

definition client1 :: potion where
  "client1 =
     (let (f, q) = fetch U0 client0 ''/widget'' (Some 2) None
      in snd (chain U0 h0 q (requests q ! 0) (Inr page1)))"

definition widget1 :: json where
  "widget1 = JObj [(''$uri'', JStr ''/api/widget/1''), (''first_name'', JStr ''Ann'')]"

text \<open>A widget has been decoded, then a GET without the cache option is in flight.\<close>

definition client2 :: potion where
  "client2 = snd (fetch U0 (snd (decode U0 h0 client0 widget1)) ''/widget/1'' (Some 0) None)"

text \<open>An environment that answers every call that has been made with the widget.\<close>

definition h1 :: handler where
  "h1 q n =
     (if n < length (requests q)
      then chain U0 h0 q (requests q ! n) (Inr \<lparr>body = widget1, x_total_count = None\<rparr>)
      else h0 q n)"

text \<open>A GET of the widget with the cache option has been issued and has settled.\<close>

definition client3 :: potion where
  "client3 =
     (let (f, q) = fetch U0 client0 ''/widget/1'' (Some 1) None in snd (await h1 q f))"

text \<open>A second payload for the widget, and the states after decoding the first and then it.\<close>

definition widget2 :: json where
  "widget2 = JObj [(''$uri'', JStr ''/api/widget/1''), (''last_name'', JStr ''Lee'')]"

definition client4 :: potion where
  "client4 = snd (decode U0 h0 client0 widget1)"

definition client5 :: potion where
  "client5 = snd (decode U0 h0 client4 widget2)"

text \<open>
  A widget whose best friend is a reference to the first widget, and the state after
  decoding it in the environment that answers with the first widget.
\<close>

definition widget3 :: json where
  "widget3 = JObj [(''$uri'', JStr ''/api/widget/2''),
                   (''best_friend'', JObj [(''$ref'', JStr ''/api/widget/1'')])]"

definition client6 :: potion where
  "client6 = snd (decode U0 h1 client0 widget3)"

section \<open>Properties of the string operations\<close>

lemma startsWith_iff: "startsWith s t \<longleftrightarrow> (\<exists>b. s = t @ b)"
  by (induction s t rule: startsWith.induct) auto

lemma indexOf_ge: "- 1 \<le> indexOf s t"
  by (induction s t rule: indexOf.induct) (auto simp: Let_def)

lemma indexOf_zero: "indexOf s t = 0 \<longleftrightarrow> startsWith s t"
proof (cases s)
  case Nil
  then show ?thesis by (cases t) auto
next
  case (Cons c s')
  have "- 1 \<le> indexOf s' t" by (rule indexOf_ge)
  then show ?thesis using Cons by (auto simp: Let_def)
qed

lemma indexOf_absent: "indexOf s t = - 1 \<longleftrightarrow> \<not> (\<exists>a b. s = a @ t @ b)"
proof (induction s t rule: indexOf.induct)
  case (1 t)
  then show ?case by auto
next
  case (2 c s t)
  show ?case
  proof (cases "startsWith (c # s) t")
    case True
    then obtain b where "c # s = t @ b" by (auto simp: startsWith_iff)
    then have "c # s = [] @ t @ b" by simp
    then show ?thesis using True by (metis indexOf.simps(2) zero_neq_neg_one)
  next
    case False
    have ge: "- 1 \<le> indexOf s t" by (rule indexOf_ge)
    have "(\<exists>a b. c # s = a @ t @ b) \<longleftrightarrow> (\<exists>a b. s = a @ t @ b)"
    proof
      assume "\<exists>a b. c # s = a @ t @ b"
      then obtain a b where ab: "c # s = a @ t @ b" by blast
      show "\<exists>a b. s = a @ t @ b"
      proof (cases a)
        case Nil
        then have "startsWith (c # s) t" using ab by (auto simp: startsWith_iff)
        then show ?thesis using False by simp
      next
        case (Cons x a')
        then show ?thesis using ab by auto
      qed
    next
      assume "\<exists>a b. s = a @ t @ b"
      then obtain a b where "s = a @ t @ b" by blast
      then have "c # s = (c # a) @ t @ b" by simp
      then show "\<exists>a b. c # s = a @ t @ b" by blast
    qed
    then show ?thesis using False 2 ge by (auto simp: Let_def)
  qed
qed

section \<open>Properties of fetch\<close>

lemma requests_default_search [simp]: "requests (default_search p opt) = requests p"
  by (simp add: default_search_def Let_def)

lemma host_default_search [simp]: "host (default_search p opt) = host p"
  by (simp add: default_search_def Let_def)

lemma cache_default_search [simp]: "cache (default_search p opt) = cache p"
  by (simp add: default_search_def Let_def)

lemma pending_default_search [simp]:
  "pendingGETRequests (default_search p opt) = pendingGETRequests p"
  by (simp add: default_search_def Let_def)

lemma normalize_uri_present:
  "normalize_uri p u = (if (\<exists>a b. u = a @ prefix p @ b) then u else prefix p @ u)"
  by (simp add: normalize_uri_def indexOf_absent)

lemma fetch_get_cases:
  assumes "o_method (option_objs p opt) = Some ''GET''"
    and "search (option_objs p opt) = None"
    and "\<not> paginate (option_objs p opt)"
  shows "fetch U p u (Some opt) pg =
     (let p1 = p\<lparr>option_objs := (option_objs p)(next_options p := option_objs p opt),
                  next_options := Suc (next_options p)\<rparr>
      in case (if cache_flag (option_objs p opt) then cache_get p u else None) of
           Some a \<Rightarrow> (Cached a, p1)
         | None \<Rightarrow>
             (case pendingGETRequests p (normalize_uri p u) of
                Some n \<Rightarrow> (Shared n, p1)
              | None \<Rightarrow>
                  (let (n, p3) = fetch_request U p1 (normalize_uri p u) (next_options p) pg
                   in (Tracked n (normalize_uri p u),
                       p3\<lparr>pendingGETRequests :=
                            (pendingGETRequests p3)(normalize_uri p u \<mapsto> n)\<rparr>))))"
  using assms
  by (auto simp: fetch_def Let_def spread_options_def cache_get_def split: option.splits)

lemmas run_defs = fetch_def Let_def spread_options_def normalize_uri_def fetch_request_def
  cache_get_def default_search_def assign_def chain_def decode_def paginate_step_def
  new_Pagination_def spread_def get_prop_def branch_of_def string_prop_def parseURI_def
  substring_def preregister_def construct_def cache_put_def merge_def pairsToObject_def
  first_rejection_def fulfilled_def item_id_def all_digits_def is_digit_def parseInt_def
  digits_value_def nearest_double_def

lemmas ex_defs = client0_def U0_def no_options_def h0_def widget1_def run_defs
  await_def on_fulfilled_def on_rejected_def h1_def upper_of_def

lemmas example_defs =
  client0_def U0_def no_options_def h0_def fetch_def Let_def spread_options_def
  normalize_uri_def fetch_request_def cache_get_def

text \<open>
  Claim C5. For every \<open>uri\<close> argument, \<open>fetch\<close> normalizes the request URI by prepending the
  API-wide prefix if the prefix does not occur in it, and the transport collaborator is
  invoked with the host concatenated with the normalized URI: every call \<open>fetch\<close> makes of
  the transport has that address, and it makes one unless it returns a cached instance or
  a pending promise.
\<close>

theorem fetch_normalizes_uri:
  "normalize_uri p u = (if (\<exists>a b. u = a @ prefix p @ b) then u else prefix p @ u)
   \<and> (\<exists>cs. requests (snd (fetch U p u fetchOptions pagination)) = requests p @ cs
         \<and> (case fst (fetch U p u fetchOptions pagination) of
              Cached a \<Rightarrow> cs = []
            | Shared n \<Rightarrow> cs = []
            | Tracked n v \<Rightarrow>
                v = normalize_uri p u \<and> (\<exists>c. cs = [c] \<and> url c = host p @ normalize_uri p u)
            | Untracked n \<Rightarrow> (\<exists>c. cs = [c] \<and> url c = host p @ normalize_uri p u)))"
proof
  show "normalize_uri p u = (if (\<exists>a b. u = a @ prefix p @ b) then u else prefix p @ u)"
    by (rule normalize_uri_present)
  show "\<exists>cs. requests (snd (fetch U p u fetchOptions pagination)) = requests p @ cs
         \<and> (case fst (fetch U p u fetchOptions pagination) of
              Cached a \<Rightarrow> cs = []
            | Shared n \<Rightarrow> cs = []
            | Tracked n v \<Rightarrow>
                v = normalize_uri p u \<and> (\<exists>c. cs = [c] \<and> url c = host p @ normalize_uri p u)
            | Untracked n \<Rightarrow> (\<exists>c. cs = [c] \<and> url c = host p @ normalize_uri p u))"
    by (auto simp: fetch_def Let_def fetch_request_def split: option.splits prod.splits)
qed

theorem fetch_normalizes_uri_witness:
  "normalize_uri client0 ''/widget/1'' = ''/api/widget/1''
   \<and> normalize_uri client0 ''/api/widget/1'' = ''/api/widget/1''
   \<and> map url (requests (snd (fetch U0 client0 ''/widget/1'' (Some 0) None)))
       = [''http://h/api/widget/1'']
   \<and> map url (requests (snd (fetch U0 client0 ''/api/widget/1'' None None)))
       = [''http://h/api/widget/1'']"
proof -
  have "normalize_uri client0 ''/widget/1'' = ''/api/widget/1''
     \<and> normalize_uri client0 ''/api/widget/1'' = ''/api/widget/1''"
    by (simp add: example_defs)
  moreover have "map url (requests (snd (fetch U0 client0 ''/widget/1'' (Some 0) None)))
       = [''http://h/api/widget/1'']"
    by (simp add: example_defs)
  moreover have "map url (requests (snd (fetch U0 client0 ''/api/widget/1'' None None)))
       = [''http://h/api/widget/1'']"
    by (simp add: example_defs)
  ultimately show ?thesis
    using fetch_normalizes_uri [of client0 "''/widget/1''" U0 "Some 0" None] by simp
qed

text \<open>
  Claim C4. If \<open>fetch\<close> is invoked with method \<open>GET\<close>, no search parameters (none given and
  none added by \<open>paginate\<close>) and the cache option set, and the Identity Cache holds an entry
  for the URI, then \<open>fetch\<close> returns the cached item as an already resolved promise and makes
  no transport call.
\<close>

theorem fetch_cache_short_circuit:
  assumes "o_method (option_objs p opt) = Some ''GET''"
    and "search (option_objs p opt) = None"
    and "\<not> paginate (option_objs p opt)"
    and "cache_flag (option_objs p opt)"
    and "cache_get p u = Some a"
  shows "fst (fetch U p u (Some opt) pg) = Cached a
     \<and> requests (snd (fetch U p u (Some opt) pg)) = requests p
     \<and> await h (snd (fetch U p u (Some opt) pg)) (fst (fetch U p u (Some opt) pg))
         = (Inr (VItem a), snd (fetch U p u (Some opt) pg))"
  using assms by (simp add: fetch_get_cases Let_def await_def)

theorem fetch_cache_short_circuit_witness:
  "o_method (option_objs client4 1) = Some ''GET'' \<and> search (option_objs client4 1) = None
   \<and> \<not> paginate (option_objs client4 1) \<and> cache_flag (option_objs client4 1)
   \<and> cache_get client4 ''/widget/1'' = Some 0
   \<and> fst (fetch U0 client4 ''/widget/1'' (Some 1) None) = Cached 0
   \<and> requests (snd (fetch U0 client4 ''/widget/1'' (Some 1) None)) = requests client4"
proof -
  have a: "o_method (option_objs client4 1) = Some ''GET''" "search (option_objs client4 1) = None"
    "\<not> paginate (option_objs client4 1)" "cache_flag (option_objs client4 1)"
    "cache_get client4 ''/widget/1'' = Some 0"
    by (simp_all add: client4_def ex_defs)
  show ?thesis
    using fetch_cache_short_circuit [OF a, of U0 None h0] a by simp
qed

section \<open>Properties of URI resolution and of the transforms\<close>

lemma split_nonempty: "split s sep \<noteq> []"
  by (induction s) (auto split: list.splits)

lemma join_split: "join sep (split s sep) = s"
proof (induction s)
  case Nil
  then show ?case by simp
next
  case (Cons c s)
  obtain w ws where ws: "split s sep = w # ws"
    using split_nonempty [of s sep] by (cases "split s sep") auto
  show ?case
  proof (cases "c = sep")
    case True
    then show ?thesis using Cons ws by simp
  next
    case False
    then show ?thesis using Cons ws by (cases ws) auto
  qed
qed

lemma split_no_sep: "w \<in> set (split s sep) \<Longrightarrow> sep \<notin> set w"
proof (induction s arbitrary: w)
  case Nil
  then show ?case by simp
next
  case (Cons c s)
  obtain v vs where vs: "split s sep = v # vs"
    using split_nonempty [of s sep] by (cases "split s sep") auto
  show ?case
  proof (cases "c = sep")
    case True
    then show ?thesis using Cons vs by auto
  next
    case False
    then show ?thesis using Cons vs by auto
  qed
qed

lemma branch_of_uri: "string_prop kvs ''$uri'' = Some u \<Longrightarrow> branch_of kvs = Resource u"
  by (simp add: branch_of_def)

lemma branch_of_ref: "branch_of [(''$ref'', JStr r)] = Ref r"
  by (simp add: branch_of_def string_prop_def get_prop_def)

lemma branch_of_date: "branch_of [(''$date'', x)] = Date x"
  by (simp add: branch_of_def string_prop_def get_prop_def)

text \<open>
  Claim C6. \<open>parseURI\<close> strips the API-wide prefix when the (decoded) URI starts with it;
  for the first registered resource prefix \<open>r\<close> such that the stripped URI starts with
  \<open>r\<close> followed by a slash it returns the stripped URI, the registered resource type and
  the remainder of the path split on the slash; when no registered prefix matches it fails
  with the unknown-resource error, and inside the inbound transform (for an object with a
  string \<open>$uri\<close>, and for a \<open>$ref\<close>) that failure is a rejected promise, not an exception.
\<close>

theorem parseURI_resolves:
  assumes "decodeURIComponent U u0 = Inr d"
  shows "(let u = (if startsWith d (prefix p) then drop (length (prefix p)) d else d)
          in case find (\<lambda>(r, t). startsWith u (r @ ''/'')) (resources p) of
               Some (r, t) \<Rightarrow>
                 (\<exists>ps. parseURI U p u0 = Inr \<lparr>uri = u, resource = t, params = ps\<rparr>
                    \<and> u = r @ ''/'' @ join CHR ''/'' ps \<and> (\<forall>w \<in> set ps. CHR ''/'' \<notin> set w))
             | None \<Rightarrow> parseURI U p u0 = Inl (unknown_resource u))
     \<and> (\<forall>e. parseURI U p u0 = Inl e \<longrightarrow>
           (\<forall>kvs. string_prop kvs ''$uri'' = Some u0 \<longrightarrow>
              fromPotionJSON U p (JObj kvs) = (Failed e, p)
            \<and> decode U h p (JObj kvs) = (Inl e, p))
         \<and> (u0 \<noteq> ''#'' \<longrightarrow>
              fromPotionJSON U p (JObj [(''$ref'', JStr u0)]) = (Failed e, p)
            \<and> decode U h p (JObj [(''$ref'', JStr u0)]) = (Inl e, p)))"
proof
  define u where "u = (if startsWith d (prefix p) then drop (length (prefix p)) d else d)"
  have eq: "parseURI U p u0 =
      (case find (\<lambda>(r, t). startsWith u (r @ ''/'')) (resources p) of
         Some (r, t) \<Rightarrow>
           Inr \<lparr>uri = u, resource = t, params = split (drop (length r + 1) u) CHR ''/''\<rparr>
       | None \<Rightarrow> Inl (unknown_resource u))"
    unfolding u_def parseURI_def substring_def Let_def indexOf_zero using assms
    by (simp split del: if_split)
  have "case find (\<lambda>(r, t). startsWith u (r @ ''/'')) (resources p) of
               Some (r, t) \<Rightarrow>
                 (\<exists>ps. parseURI U p u0 = Inr \<lparr>uri = u, resource = t, params = ps\<rparr>
                    \<and> u = r @ ''/'' @ join CHR ''/'' ps \<and> (\<forall>w \<in> set ps. CHR ''/'' \<notin> set w))
             | None \<Rightarrow> parseURI U p u0 = Inl (unknown_resource u)"
  proof (cases "find (\<lambda>(r, t). startsWith u (r @ ''/'')) (resources p)")
    case None
    then show ?thesis using eq by simp
  next
    case (Some rt)
    obtain r t where rt: "rt = (r, t)" by (cases rt)
    have sw: "startsWith u (r @ ''/'')"
      using Some rt by (auto dest: find_Some_iff [THEN iffD1])
    then obtain b where b: "u = (r @ ''/'') @ b" by (auto simp: startsWith_iff)
    have "parseURI U p u0
        = Inr \<lparr>uri = u, resource = t, params = split (drop (length r + 1) u) CHR ''/''\<rparr>"
      using eq Some rt by simp
    moreover have "drop (length r + 1) u = b" using b by simp
    ultimately show ?thesis
      using Some rt b by (auto simp: join_split split_no_sep)
  qed
  then show "let u = (if startsWith d (prefix p) then drop (length (prefix p)) d else d)
          in case find (\<lambda>(r, t). startsWith u (r @ ''/'')) (resources p) of
               Some (r, t) \<Rightarrow>
                 (\<exists>ps. parseURI U p u0 = Inr \<lparr>uri = u, resource = t, params = ps\<rparr>
                    \<and> u = r @ ''/'' @ join CHR ''/'' ps \<and> (\<forall>w \<in> set ps. CHR ''/'' \<notin> set w))
             | None \<Rightarrow> parseURI U p u0 = Inl (unknown_resource u)"
    unfolding u_def [symmetric] Let_def .
  show "\<forall>e. parseURI U p u0 = Inl e \<longrightarrow>
           (\<forall>kvs. string_prop kvs ''$uri'' = Some u0 \<longrightarrow>
              fromPotionJSON U p (JObj kvs) = (Failed e, p)
            \<and> decode U h p (JObj kvs) = (Inl e, p))
         \<and> (u0 \<noteq> ''#'' \<longrightarrow>
              fromPotionJSON U p (JObj [(''$ref'', JStr u0)]) = (Failed e, p)
            \<and> decode U h p (JObj [(''$ref'', JStr u0)]) = (Inl e, p))"
    by (simp add: branch_of_uri branch_of_ref decode_def fromPotionJSON_ref_def)
qed

theorem parseURI_resolves_witness:
  "decodeURIComponent U0 ''/api/widget/12/x'' = Inr ''/api/widget/12/x''
   \<and> parseURI U0 client0 ''/api/widget/12/x''
       = Inr \<lparr>uri = ''/widget/12/x'', resource = ''Widget'', params = [''12'', ''x'']\<rparr>
   \<and> decodeURIComponent U0 ''/gadget/1'' = Inr ''/gadget/1''
   \<and> parseURI U0 client0 ''/gadget/1'' = Inl (unknown_resource ''/gadget/1'')
   \<and> decode U0 h0 client0 (JObj [(''$uri'', JStr ''/gadget/1''), (''name'', JStr ''x'')])
       = (Inl (unknown_resource ''/gadget/1''), client0)"
proof -
  have d: "decodeURIComponent U0 ''/gadget/1'' = Inr ''/gadget/1''"
    by (simp add: U0_def)
  have f: "find (\<lambda>(r, t). startsWith ''/gadget/1'' (r @ ''/'')) (resources client0) = None"
    "\<not> startsWith ''/gadget/1'' (prefix client0)"
    by (simp_all add: client0_def)
  have s: "string_prop [(''$uri'', JStr ''/gadget/1''), (''name'', JStr ''x'')] ''$uri''
      = Some ''/gadget/1''"
    by (simp add: string_prop_def get_prop_def)
  have "parseURI U0 client0 ''/gadget/1'' = Inl (unknown_resource ''/gadget/1'')
      \<and> decode U0 h0 client0 (JObj [(''$uri'', JStr ''/gadget/1''), (''name'', JStr ''x'')])
          = (Inl (unknown_resource ''/gadget/1''), client0)"
    using parseURI_resolves [OF d, of client0 h0] f s by (simp add: Let_def)
  moreover have "parseURI U0 client0 ''/api/widget/12/x''
       = Inr \<lparr>uri = ''/widget/12/x'', resource = ''Widget'', params = [''12'', ''x'']\<rparr>"
    by (simp add: parseURI_def U0_def client0_def substring_def)
  ultimately show ?thesis using d by (simp add: U0_def)
qed

text \<open>
  Claim C8. The outbound transform encodes a date \<open>d\<close> as \<open>{$date: m}\<close> with \<open>m\<close> the time
  value of \<open>d\<close> in milliseconds since the epoch; the inbound transform decodes a single-key
  object \<open>{$date: x}\<close> to the date built from \<open>x\<close>; hence decoding the encoding of a date
  gives a date with the same time value (a date has a time value of at most 8.64e15
  milliseconds from the epoch).
\<close>

theorem date_round_trip:
  "toPotionJSON U pre (ODate m) = JObj [(''$date'', JNum m)]
   \<and> decode U h q (JObj [(''$date'', x)]) = (Inr (VDate (new_Date x)), q)
   \<and> (\<bar>m\<bar> \<le> 8640000000000000 \<longrightarrow>
        decode U h q (toPotionJSON U pre (ODate m)) = (Inr (VDate (TimeValue m)), q))"
  by (simp add: decode_def branch_of_date new_Date_def)

theorem date_round_trip_witness:
  "\<bar>1500000000000 :: int\<bar> \<le> 8640000000000000
   \<and> decode U0 h0 client0 (toPotionJSON U0 (prefix client0) (ODate 1500000000000))
       = (Inr (VDate (TimeValue 1500000000000)), client0)"
  using date_round_trip [where U = U0 and pre = "prefix client0" and m = 1500000000000 and h = h0
      and q = client0 and x = JNull]
  by simp

section \<open>Properties of the serialization of an item\<close>

lemma set_update_subset: "set (AList.update k v al) \<subseteq> insert (k, v) (set al)"
  by (induction al) auto

lemma keys_update: "fst ` set (AList.update k v al) = insert k (fst ` set al)"
  by (induction al) auto

lemma toJSON_fold_entries:
  "set (fold (\<lambda>(key, v) properties. AList.update (f key) v properties) xs acc)
     \<subseteq> set acc \<union> (\<lambda>(key, v). (f key, v)) ` set xs"
proof (induction xs arbitrary: acc)
  case Nil
  then show ?case by simp
next
  case (Cons x xs)
  obtain k v where x: "x = (k, v)" by (cases x)
  have "set (fold (\<lambda>(key, v) properties. AList.update (f key) v properties) xs
          (AList.update (f k) v acc))
      \<subseteq> set (AList.update (f k) v acc) \<union> (\<lambda>(key, v). (f key, v)) ` set xs"
    by (rule Cons.IH)
  then show ?case using set_update_subset [of "f k" v acc] x by auto
qed

lemma toJSON_fold_keys:
  "fst ` set (fold (\<lambda>(key, v) properties. AList.update (f key) v properties) xs acc)
     = fst ` set acc \<union> f ` fst ` set xs"
proof (induction xs arbitrary: acc)
  case Nil
  then show ?case by simp
next
  case (Cons x xs)
  obtain k v where x: "x = (k, v)" by (cases x)
  show ?case using Cons.IH [of "AList.update (f k) v acc"] x
    by (simp add: keys_update)
qed

text \<open>The naming codec of the examples is a wire-case codec.\<close>

lemma lower_of_None: "lower_of c = None \<longleftrightarrow> \<not> capital c"
  by (simp add: lower_of_def capital_def)

lemma lower_of_Some:
  assumes "lower_of c = Some l"
  shows "\<not> capital l \<and> l \<noteq> CHR ''_''"
proof -
  have "(c, l) \<in> set (zip ''ABCDEFGHIJKLMNOPQRSTUVWXYZ'' ''abcdefghijklmnopqrstuvwxyz'')"
    using assms unfolding lower_of_def by (rule map_of_SomeD)
  then have "l \<in> set ''abcdefghijklmnopqrstuvwxyz''" by (rule set_zip_rightD)
  then show ?thesis unfolding capital_def by auto
qed

lemma wire_case_snake_rest: "wire_case (snake_rest s)"
proof (induction s)
  case Nil
  then show ?case by (simp add: wire_case_def)
next
  case (Cons c s)
  show ?case
  proof (cases "lower_of c")
    case None
    then have "\<not> capital c" by (simp add: lower_of_None)
    then show ?thesis using Cons None by (simp add: wire_case_def)
  next
    case (Some l)
    have "\<not> capital (CHR ''_'')" by (simp add: capital_def)
    then show ?thesis using Cons Some lower_of_Some [OF Some] by (simp add: wire_case_def)
  qed
qed

lemma wire_case_snake_case: "wire_case (snake_case k)"
proof (cases k)
  case Nil
  then show ?thesis by (simp add: wire_case_def)
next
  case (Cons c s)
  show ?thesis
  proof (cases "lower_of c")
    case None
    then have "\<not> capital c" by (simp add: lower_of_None)
    then show ?thesis using Cons None wire_case_snake_rest [of s] by (simp add: wire_case_def)
  next
    case (Some l)
    then show ?thesis using Cons wire_case_snake_rest [of s] lower_of_Some [OF Some]
      by (simp add: wire_case_def)
  qed
qed

lemma snake_rest_wire: "wire_case w \<Longrightarrow> snake_rest w = w"
  by (induction w) (simp_all add: wire_case_def lower_of_None [symmetric])

lemma snake_case_wire: "wire_case w \<Longrightarrow> snake_case w = w"
  using snake_rest_wire [of "tl w"]
  by (cases w) (simp_all add: wire_case_def lower_of_None [symmetric])

lemma snake_case_lead:
  assumes a: "startsWith (snake_case k) ''_''"
  shows "startsWith k ''_''"
proof (cases k)
  case Nil
  then show ?thesis using a by simp
next
  case (Cons c s)
  show ?thesis
  proof (cases "lower_of c")
    case None
    then show ?thesis using a Cons by simp
  next
    case (Some l)
    then show ?thesis using a Cons lower_of_Some [OF Some] by simp
  qed
qed

lemma U0_codec:
  "\<forall>k. wire_case (fromCamelCase U0 k)"
  "\<forall>w. wire_case w \<longrightarrow> fromCamelCase U0 w = w"
  "\<forall>k. startsWith (fromCamelCase U0 k) ''_'' \<longrightarrow> startsWith k ''_''"
  using wire_case_snake_case snake_case_wire snake_case_lead by (simp_all add: U0_def)

text \<open>
  Whatever the codec: every entry of the object is the value of an own property that is
  kept, under the rendering of its name, and the keys are exactly these renderings.
\<close>

lemma toJSON_entries:
  "(\<forall>(w, v) \<in> set (toJSON U metadata this).
      \<exists>key. (key, v) \<in> set this \<and> w = fromCamelCase U key \<and> kept metadata key)
   \<and> fst ` set (toJSON U metadata this)
       = fromCamelCase U ` {key \<in> fst ` set this. kept metadata key}"
proof
  have "set (toJSON U metadata this)
      \<subseteq> (\<lambda>(key, v). (fromCamelCase U key, v)) ` set (filter (\<lambda>(key, v). kept metadata key) this)"
    unfolding toJSON_def using toJSON_fold_entries [where acc = "[]"] by fastforce
  then show "\<forall>(w, v) \<in> set (toJSON U metadata this).
      \<exists>key. (key, v) \<in> set this \<and> w = fromCamelCase U key \<and> kept metadata key"
    by fastforce
  show "fst ` set (toJSON U metadata this)
       = fromCamelCase U ` {key \<in> fst ` set this. kept metadata key}"
    unfolding toJSON_def toJSON_fold_keys by force
qed




section \<open>Properties of pagination\<close>


lemma map_of_assign:
  "map_of (assign t s) = map_of t ++ map_of (rev s)"
  unfolding assign_def
proof (induction s arbitrary: t)
  case Nil
  then show ?case by simp
next
  case (Cons x s)
  obtain k v where x: "x = (k, v)" by (cases x)
  have "map_of (fold (\<lambda>(k, v). AList.update k v) s (AList.update k v t))
      = map_of (AList.update k v t) ++ map_of (rev s)"
    by (rule Cons.IH)
  then show ?case using x by (simp add: update_conv' map_add_def fun_eq_iff split: option.splits)
qed

lemma map_of_rev_distinct: "distinct (map fst s) \<Longrightarrow> map_of (rev s) = map_of s"
  by (rule map_of_inject_set [THEN iffD2]) (auto simp: rev_map [symmetric])

lemma get_prop_assign:
  "distinct (map fst s) \<Longrightarrow>
     get_prop (assign t s) k = (case get_prop s k of Some v \<Rightarrow> Some v | None \<Rightarrow> get_prop t k)"
  by (simp add: get_prop_def map_of_assign map_of_rev_distinct map_add_def split: option.splits)

lemma get_prop_update: "get_prop (AList.update k v al) k = Some v"
  by (simp add: get_prop_def update_conv')


lemma fetch_paginate:
  assumes "paginate (spread_options p fo)"
  shows "fetch U p u fo pg =
     (let options = spread_options p fo;
          merged = assign [(''page'', ONum 1), (''perPage'', ONum 25)]
                     (case search options of None \<Rightarrow> [] | Some a \<Rightarrow> search_objs p a);
          c = \<lparr>url = host p @ normalize_uri p u,
               sent = \<lparr>r_method = o_method options,
                        r_search = Some (toPotionJSON U (prefix p) (OObj merged)),
                        r_data = map_option (toPotionJSON U (prefix p)) (data options),
                        r_cache = cache_flag options,
                        r_paginate = True\<rparr>,
               c_uri = normalize_uri p u, c_options = next_options p, c_paginate = True,
               c_pagination = pg\<rparr>
      in (Untracked (length (requests p)),
          p\<lparr>option_objs := (option_objs p)
                 (next_options p := options\<lparr>search := Some (next_search p)\<rparr>),
            next_options := Suc (next_options p),
            search_objs := (search_objs p)(next_search p := merged),
            next_search := Suc (next_search p),
            requests := requests p @ [c]\<rparr>))"
  using assms
  by (simp add: fetch_def Let_def default_search_def fetch_request_def cong: option.case_cong)

text \<open>
  Claim C9. For every cursor, \<open>pages\<close> is the ceiling of \<open>total / perPage\<close> (5 for a total of
  101 and 25 per page). For a cursor as \<open>fetch\<close> creates it (stored options with \<open>paginate\<close>
  and a search object), \<open>changePageTo(n)\<close> writes \<open>page = n\<close> into the stored search options
  and calls \<open>fetch\<close> with the stored URI and options and the cursor as the pagination
  target: one transport call is made, with the search options merged into a new object
  that holds \<open>page = n\<close>; when its response has been decoded, the last step of the chain
  replaces the item list and the total of that cursor in place and creates no cursor.
\<close>

theorem pagination_in_place:
  assumes s: "search (option_objs p (p_options (cursors p c))) = Some s"
    and pg: "paginate (option_objs p (p_options (cursors p c)))"
    and al: "s < next_search p"
  shows "(n \<noteq> 0 \<longrightarrow> pages (cur\<lparr>p_perPage := Some (ONum n)\<rparr>)
            = Some \<lceil>real_of_int (p_total cur) / real_of_int n\<rceil>)
     \<and> pages (cur\<lparr>p_total := 101, p_perPage := Some (ONum 25)\<rparr>) = Some 5
     \<and> (\<exists>call p2.
           changePageTo U p c page = (Inr (Untracked (length (requests p))), p2)
         \<and> search_objs p2 s = AList.update ''page'' page (search_objs p s)
         \<and> get_prop (search_objs p2 s) ''page'' = Some page
         \<and> p_page (cursors p2 c) = Some page
         \<and> requests p2 = requests p @ [call]
         \<and> c_paginate call \<and> c_pagination call = Some c
         \<and> search (option_objs p2 (c_options call)) = Some (next_search p)
         \<and> r_search (sent call)
             = Some (toPotionJSON U (prefix p) (OObj (search_objs p2 (next_search p))))
         \<and> (distinct (map fst (search_objs p s)) \<longrightarrow>
               get_prop (search_objs p2 (next_search p)) ''page'' = Some page)
         \<and> next_cursor p2 = next_cursor p
         \<and> (\<forall>q header d its. spread d = Some its \<longrightarrow>
               (\<exists>count. paginate_step q call header d
                   = (Inr VUndefined,
                      q\<lparr>cursors := (cursors q)
                            (c := (cursors q c)\<lparr>p_items := its, p_total := count\<rparr>)\<rparr>)
                 \<and> count = (case header of
                              Some m \<Rightarrow> if m \<noteq> 0 then m else int (length its)
                            | None \<Rightarrow> int (length its)))))"
proof (intro conjI)
  show "n \<noteq> 0 \<longrightarrow> pages (cur\<lparr>p_perPage := Some (ONum n)\<rparr>)
            = Some \<lceil>real_of_int (p_total cur) / real_of_int n\<rceil>"
    by (simp add: pages_def)
  show "pages (cur\<lparr>p_total := 101, p_perPage := Some (ONum 25)\<rparr>) = Some 5"
    by (simp add: pages_def)
  define this where "this = cursors p c"
  define opt where "opt = p_options this"
  define p1 where "p1 = p\<lparr>search_objs := (search_objs p)
                            (s := AList.update ''page'' page (search_objs p s)),
                         cursors := (cursors p)(c := this\<lparr>p_page := Some page\<rparr>)\<rparr>"
  have so: "spread_options p1 (Some opt) = option_objs p opt"
    by (simp add: spread_options_def p1_def)
  have pg1: "paginate (spread_options p1 (Some opt))"
    unfolding so using pg by (simp add: opt_def this_def)
  have cp: "changePageTo U p c page
      = (Inr (fst (fetch U p1 (p_uri this) (Some opt) (Some c))),
         snd (fetch U p1 (p_uri this) (Some opt) (Some c)))"
    using s by (simp add: changePageTo_def Let_def this_def opt_def p1_def split: prod.splits)
  have sr: "search (option_objs p opt) = Some s"
    using s by (simp add: opt_def this_def)
  have d: "distinct (map fst (search_objs p s)) \<Longrightarrow>
      distinct (map fst (AList.update ''page'' page (search_objs p s)))"
    by (simp add: distinct_update)
  show "\<exists>call p2.
           changePageTo U p c page = (Inr (Untracked (length (requests p))), p2)
         \<and> search_objs p2 s = AList.update ''page'' page (search_objs p s)
         \<and> get_prop (search_objs p2 s) ''page'' = Some page
         \<and> p_page (cursors p2 c) = Some page
         \<and> requests p2 = requests p @ [call]
         \<and> c_paginate call \<and> c_pagination call = Some c
         \<and> search (option_objs p2 (c_options call)) = Some (next_search p)
         \<and> r_search (sent call)
             = Some (toPotionJSON U (prefix p) (OObj (search_objs p2 (next_search p))))
         \<and> (distinct (map fst (search_objs p s)) \<longrightarrow>
               get_prop (search_objs p2 (next_search p)) ''page'' = Some page)
         \<and> next_cursor p2 = next_cursor p
         \<and> (\<forall>q header d its. spread d = Some its \<longrightarrow>
               (\<exists>count. paginate_step q call header d
                   = (Inr VUndefined,
                      q\<lparr>cursors := (cursors q)
                            (c := (cursors q c)\<lparr>p_items := its, p_total := count\<rparr>)\<rparr>)
                 \<and> count = (case header of
                              Some m \<Rightarrow> if m \<noteq> 0 then m else int (length its)
                            | None \<Rightarrow> int (length its))))"
    unfolding cp fetch_paginate [OF pg1] so
    using al sr d
    by (simp add: Let_def p1_def paginate_step_def update_def get_prop_update get_prop_assign)
qed

lemma client1_facts:
  "search (option_objs client1 (p_options (cursors client1 0))) = Some 0"
  "paginate (option_objs client1 (p_options (cursors client1 0)))"
  "next_search client1 = 1"
  "length (requests client1) = 1"
  "pages (cursors client1 0) = Some 5"
  "p_items (cursors client1 0) = [VItem 0]"
  by (simp_all add: client1_def page1_def client0_def U0_def no_options_def h0_def run_defs
      pages_def)

theorem pagination_in_place_witness:
  "search (option_objs client1 (p_options (cursors client1 0))) = Some 0
   \<and> paginate (option_objs client1 (p_options (cursors client1 0)))
   \<and> 0 < next_search client1
   \<and> pages (cursors client1 0) = Some 5
   \<and> (\<exists>call p2. changePageTo U0 client1 0 (ONum 3) = (Inr (Untracked 1), p2)
         \<and> get_prop (search_objs p2 0) ''page'' = Some (ONum 3)
         \<and> requests p2 = requests client1 @ [call]
         \<and> c_pagination call = Some 0
         \<and> next_cursor p2 = next_cursor client1
         \<and> fst (paginate_step p2 call (Some 7) (VArr [VNull])) = Inr VUndefined
         \<and> p_items (cursors (snd (paginate_step p2 call (Some 7) (VArr [VNull]))) 0) = [VNull]
         \<and> p_total (cursors (snd (paginate_step p2 call (Some 7) (VArr [VNull]))) 0) = 7
         \<and> next_cursor (snd (paginate_step p2 call (Some 7) (VArr [VNull])))
             = next_cursor client1)"
proof -
  have al: "0 < next_search client1" using client1_facts by simp
  have sp: "spread (VArr [VNull]) = Some [VNull]" by (simp add: spread_def)
  from pagination_in_place [OF client1_facts(1) client1_facts(2) al, of _ _ U0 "ONum 3"]
  obtain call p2 where
    c: "changePageTo U0 client1 0 (ONum 3) = (Inr (Untracked (length (requests client1))), p2)"
      "get_prop (search_objs p2 0) ''page'' = Some (ONum 3)"
      "requests p2 = requests client1 @ [call]"
      "c_pagination call = Some 0"
      "next_cursor p2 = next_cursor client1"
    and u: "\<And>q header d its. spread d = Some its \<Longrightarrow>
               (\<exists>count. paginate_step q call header d
                   = (Inr VUndefined,
                      q\<lparr>cursors := (cursors q)
                            (0 := (cursors q 0)\<lparr>p_items := its, p_total := count\<rparr>)\<rparr>)
                 \<and> count = (case header of
                              Some m \<Rightarrow> if m \<noteq> 0 then m else int (length its)
                            | None \<Rightarrow> int (length its)))"
    by blast
  from u [OF sp, of p2 "Some 7"]
  have "paginate_step p2 call (Some 7) (VArr [VNull])
      = (Inr VUndefined,
         p2\<lparr>cursors := (cursors p2)(0 := (cursors p2 0)\<lparr>p_items := [VNull], p_total := 7\<rparr>)\<rparr>)"
    by simp
  then show ?thesis using c client1_facts al by simp
qed

section \<open>Properties of the Pending Request Table\<close>

lemma client2_facts:
  "o_method (option_objs client2 1) = Some ''GET''"
  "search (option_objs client2 1) = None"
  "\<not> paginate (option_objs client2 1)"
  "cache_flag (option_objs client2 1)"
  "normalize_uri client2 ''/widget/1'' = ''/api/widget/1''"
  "pendingGETRequests client2 ''/api/widget/1'' = Some 0"
  "cache_get client2 ''/widget/1'' = Some 0"
  by (simp_all add: client2_def ex_defs)

text \<open>
  Claim C2 as stated fails: with the cache option set and the instance cached under the URI
  as passed, a GET without search parameters issued while a GET to the same URI is in
  flight returns the cached instance, not the pending promise.
\<close>

theorem fetch_shares_pending_counterexample:
  "o_method (option_objs client2 1) = Some ''GET''
   \<and> search (option_objs client2 1) = None
   \<and> \<not> paginate (option_objs client2 1)
   \<and> pendingGETRequests client2 (normalize_uri client2 ''/widget/1'') = Some 0
   \<and> fst (fetch U0 client2 ''/widget/1'' (Some 1) None) = Cached 0
   \<and> fst (fetch U0 client2 ''/widget/1'' (Some 1) None) \<noteq> Shared 0"
  using client2_facts by (simp add: fetch_get_cases)

lemma client3_facts:
  "fst (fetch U0 client0 ''/widget/1'' (Some 1) None) = Tracked 0 ''/api/widget/1''"
  "fst (await h1 (snd (fetch U0 client0 ''/widget/1'' (Some 1) None))
          (Tracked 0 ''/api/widget/1'')) = Inr (VItem 0)"
  "client3 = snd (await h1 (snd (fetch U0 client0 ''/widget/1'' (Some 1) None))
          (Tracked 0 ''/api/widget/1''))"
  "o_method (option_objs client3 1) = Some ''GET''"
  "search (option_objs client3 1) = None"
  "\<not> paginate (option_objs client3 1)"
  "cache_flag (option_objs client3 1)"
  "pendingGETRequests client3 ''/api/widget/1'' = None"
  "cache_get client3 ''/widget/1'' = Some 0"
  "length (requests client3) = 1"
  by (simp_all add: client3_def ex_defs)


lemma fetch_tracked:
  assumes g: "o_method (option_objs p opt) = Some ''GET''"
    "search (option_objs p opt) = None" "\<not> paginate (option_objs p opt)"
    and f: "fetch U p u (Some opt) pg = (Tracked m v, p1)"
  shows "m = length (requests p) \<and> v = normalize_uri p u
     \<and> (\<exists>call. requests p1 = requests p @ [call] \<and> url call = host p @ v)
     \<and> pendingGETRequests p1 = (pendingGETRequests p)(v \<mapsto> m)
     \<and> cache p1 = cache p \<and> prefix p1 = prefix p \<and> host p1 = host p
     \<and> next_options p1 = Suc (next_options p)
     \<and> option_objs p1 = (option_objs p)(next_options p := option_objs p opt)
     \<and> (if cache_flag (option_objs p opt) then cache_get p u else None) = None
     \<and> pendingGETRequests p v = None"
  using f unfolding fetch_get_cases [OF g]
  by (auto simp: Let_def fetch_request_def split: option.splits)

text \<open>
  Claim C2, amended. When \<open>fetch\<close> is called with method \<open>GET\<close> and no search parameters
  while a GET to the same URI is registered in the Pending Request Table, it makes no
  transport call; it returns the promise stored in the table, unless the cache option is set
  and the Identity Cache holds an entry under the URI as passed, in which case it returns
  that instance. Hence of two identical GET fetches, the second issued before the first
  settles, if the first makes a transport call the second returns the promise the first
  stored, and there is exactly one transport call.
\<close>

theorem fetch_shares_pending:
  assumes g: "o_method (option_objs p opt) = Some ''GET''"
    "search (option_objs p opt) = None" "\<not> paginate (option_objs p opt)"
  shows "(pendingGETRequests p (normalize_uri p u) = Some n \<longrightarrow>
            requests (snd (fetch U p u (Some opt) pg)) = requests p
          \<and> fst (fetch U p u (Some opt) pg) =
              (case (if cache_flag (option_objs p opt) then cache_get p u else None) of
                 Some a \<Rightarrow> Cached a
               | None \<Rightarrow> Shared n))
     \<and> (opt < next_options p \<longrightarrow>
          (\<forall>m v p1. fetch U p u (Some opt) pg = (Tracked m v, p1) \<longrightarrow>
             (\<exists>call. requests p1 = requests p @ [call]
                \<and> fst (fetch U p1 u (Some opt) pg') = Shared m
                \<and> requests (snd (fetch U p1 u (Some opt) pg')) = requests p @ [call])))"
proof (intro conjI impI allI)
  assume "pendingGETRequests p (normalize_uri p u) = Some n"
  then show "requests (snd (fetch U p u (Some opt) pg)) = requests p"
    and "fst (fetch U p u (Some opt) pg) =
              (case (if cache_flag (option_objs p opt) then cache_get p u else None) of
                 Some a \<Rightarrow> Cached a
               | None \<Rightarrow> Shared n)"
    by (simp_all add: fetch_get_cases [OF g] Let_def split: option.splits)
next
  fix m v p1
  assume al: "opt < next_options p" and f: "fetch U p u (Some opt) pg = (Tracked m v, p1)"
  note t = fetch_tracked [OF g f]
  from t obtain call where call: "requests p1 = requests p @ [call]" by blast
  have o1: "option_objs p1 opt = option_objs p opt" using t al by simp
  have g1: "o_method (option_objs p1 opt) = Some ''GET''"
    "search (option_objs p1 opt) = None" "\<not> paginate (option_objs p1 opt)"
    using g o1 by simp_all
  have n1: "normalize_uri p1 u = v" using t by (simp add: normalize_uri_def)
  have c1: "(if cache_flag (option_objs p1 opt) then cache_get p1 u else None) = None"
    using t o1 by (auto simp: cache_get_def split: if_splits)
  have "fst (fetch U p1 u (Some opt) pg') = Shared m
      \<and> requests (snd (fetch U p1 u (Some opt) pg')) = requests p @ [call]"
    unfolding fetch_get_cases [OF g1] n1 c1 using t call by (simp add: Let_def)
  then show "\<exists>call. requests p1 = requests p @ [call]
                \<and> fst (fetch U p1 u (Some opt) pg') = Shared m
                \<and> requests (snd (fetch U p1 u (Some opt) pg')) = requests p @ [call]"
    using call by blast
qed


theorem fetch_shares_pending_witness:
  "pendingGETRequests client2 (normalize_uri client2 ''/widget/1'') = Some 0
   \<and> fst (fetch U0 client2 ''/widget/1'' (Some 0) None) = Shared 0
   \<and> requests (snd (fetch U0 client2 ''/widget/1'' (Some 0) None)) = requests client2
   \<and> fst (fetch U0 client2 ''/widget/1'' (Some 1) None) = Cached 0
   \<and> requests (snd (fetch U0 client2 ''/widget/1'' (Some 1) None)) = requests client2"
proof -
  have g0: "o_method (option_objs client2 0) = Some ''GET''"
    "search (option_objs client2 0) = None" "\<not> paginate (option_objs client2 0)"
    "\<not> cache_flag (option_objs client2 0)"
    by (simp_all add: client2_def ex_defs)
  show ?thesis
    using fetch_shares_pending [OF g0(1-3), of "''/widget/1''" 0 U0 None None]
      fetch_shares_pending [OF client2_facts(1-3), of "''/widget/1''" 0 U0 None None]
      client2_facts g0
    by simp
qed

text \<open>
  Claim C3, amended. For every GET (no search parameters) that has made a transport call,
  the entry of the Pending Request Table for its URI is removed when the request settles,
  on success and on failure alike; on failure the reason is the message of the error when
  it is an error, else the string when it is a string, else the fallback message for the
  URI. A later GET to that URI is then not held by the table: it makes a new transport
  call, unless the cache option is set and the Identity Cache holds an entry under the URI
  as passed.
\<close>

theorem settlement_clears_pending:
  "pendingGETRequests (snd (await h q (Tracked n u))) u = None
   \<and> fst (await h q (Tracked n u)) =
       (case fst (h q n) of
          Inr d \<Rightarrow> Inr d
        | Inl err \<Rightarrow> Inl (Reason (VStr (message_of u err))))
   \<and> message_of u (Error m) = m
   \<and> message_of u (Reason (VStr s)) = s
   \<and> ((\<forall>s. v \<noteq> VStr s) \<longrightarrow> message_of u (Reason v) = fallback_message u)
   \<and> (o_method (option_objs q' opt) = Some ''GET'' \<and> search (option_objs q' opt) = None
        \<and> \<not> paginate (option_objs q' opt) \<and> pendingGETRequests q' (normalize_uri q' u0) = None
        \<and> (cache_flag (option_objs q' opt) \<longrightarrow> cache_get q' u0 = None) \<longrightarrow>
        (\<exists>call. fst (fetch U q' u0 (Some opt) pg)
                  = Tracked (length (requests q')) (normalize_uri q' u0)
           \<and> requests (snd (fetch U q' u0 (Some opt) pg)) = requests q' @ [call]
           \<and> url call = host q' @ normalize_uri q' u0))"
proof (intro conjI impI)
  show "pendingGETRequests (snd (await h q (Tracked n u))) u = None"
    by (simp add: await_def on_fulfilled_def on_rejected_def split: prod.splits sum.splits)
  show "fst (await h q (Tracked n u)) =
       (case fst (h q n) of
          Inr d \<Rightarrow> Inr d
        | Inl err \<Rightarrow> Inl (Reason (VStr (message_of u err))))"
    by (simp add: await_def on_fulfilled_def on_rejected_def split: prod.splits sum.splits)
  show "message_of u (Error m) = m" "message_of u (Reason (VStr s)) = s"
    by (simp_all add: message_of_def)
  show "message_of u (Reason v) = fallback_message u" if "\<forall>s. v \<noteq> VStr s"
    using that by (cases v) (simp_all add: message_of_def)
  assume a: "o_method (option_objs q' opt) = Some ''GET'' \<and> search (option_objs q' opt) = None
        \<and> \<not> paginate (option_objs q' opt) \<and> pendingGETRequests q' (normalize_uri q' u0) = None
        \<and> (cache_flag (option_objs q' opt) \<longrightarrow> cache_get q' u0 = None)"
  then have g: "o_method (option_objs q' opt) = Some ''GET''"
    "search (option_objs q' opt) = None" "\<not> paginate (option_objs q' opt)"
    by simp_all
  show "\<exists>call. fst (fetch U q' u0 (Some opt) pg)
                  = Tracked (length (requests q')) (normalize_uri q' u0)
           \<and> requests (snd (fetch U q' u0 (Some opt) pg)) = requests q' @ [call]
           \<and> url call = host q' @ normalize_uri q' u0"
    unfolding fetch_get_cases [OF g] using a
    by (auto simp: Let_def fetch_request_def split: option.splits)
qed

text \<open>
  Claim C3 as stated fails: a GET with the cache option whose response is the resource
  itself leaves the instance in the Identity Cache, and a later identical GET returns it
  without a transport call.
\<close>

theorem settlement_clears_pending_counterexample:
  "fst (fetch U0 client0 ''/widget/1'' (Some 1) None) = Tracked 0 ''/api/widget/1''
   \<and> length (requests (snd (fetch U0 client0 ''/widget/1'' (Some 1) None))) = 1
   \<and> fst (await h1 (snd (fetch U0 client0 ''/widget/1'' (Some 1) None))
           (Tracked 0 ''/api/widget/1'')) = Inr (VItem 0)
   \<and> client3 = snd (await h1 (snd (fetch U0 client0 ''/widget/1'' (Some 1) None))
           (Tracked 0 ''/api/widget/1''))
   \<and> pendingGETRequests client3 ''/api/widget/1'' = None
   \<and> fst (fetch U0 client3 ''/widget/1'' (Some 1) None) = Cached 0
   \<and> length (requests (snd (fetch U0 client3 ''/widget/1'' (Some 1) None))) = 1"
proof -
  have "length (requests (snd (fetch U0 client0 ''/widget/1'' (Some 1) None))) = 1"
    by (simp add: ex_defs)
  moreover have "fst (fetch U0 client3 ''/widget/1'' (Some 1) None) = Cached 0
     \<and> requests (snd (fetch U0 client3 ''/widget/1'' (Some 1) None)) = requests client3"
    using client3_facts by (simp add: fetch_get_cases)
  ultimately show ?thesis using client3_facts by simp
qed

theorem settlement_clears_pending_witness:
  "o_method (option_objs client3 0) = Some ''GET'' \<and> search (option_objs client3 0) = None
   \<and> \<not> paginate (option_objs client3 0)
   \<and> pendingGETRequests client3 (normalize_uri client3 ''/widget/1'') = None
   \<and> \<not> cache_flag (option_objs client3 0)
   \<and> fst (await h0 client2 (Tracked 0 ''/api/widget/1''))
       = Inl (Reason (VStr (fallback_message ''/api/widget/1'')))
   \<and> (\<exists>call. fst (fetch U0 client3 ''/widget/1'' (Some 0) None) = Tracked 1 ''/api/widget/1''
         \<and> requests (snd (fetch U0 client3 ''/widget/1'' (Some 0) None))
             = requests client3 @ [call]
         \<and> url call = ''http://h/api/widget/1'')"
proof -
  have g0: "o_method (option_objs client3 0) = Some ''GET''"
    "search (option_objs client3 0) = None" "\<not> paginate (option_objs client3 0)"
    "\<not> cache_flag (option_objs client3 0)"
    "normalize_uri client3 ''/widget/1'' = ''/api/widget/1''"
    "host client3 = ''http://h''"
    by (simp_all add: client3_def ex_defs)
  have h: "fst (h0 client2 0) = Inl (Reason VNull)" by (simp add: h0_def)
  show ?thesis
    using settlement_clears_pending [where h = h0 and q = client2 and n = 0
        and u = "''/api/widget/1''" and v = VNull and q' = client3 and opt = 0
        and ?u0.0 = "''/widget/1''" and U = U0 and pg = None]
      client3_facts(8,10) g0 h
    by simp
qed

section \<open>Properties of the Identity Cache and of the objects of the callers\<close>

lemma keeps_refl [simp]: "keeps p p"
  by (simp add: keeps_def)

lemma keeps_trans: "keeps p q \<Longrightarrow> keeps q r \<Longrightarrow> keeps p r"
  by (auto simp: keeps_def)

lemma keeps_fetch: "keeps p (snd (fetch U p u fo pg))"
  by (auto simp: keeps_def fetch_def Let_def default_search_def fetch_request_def cache_get_def
      split: option.splits prod.splits)

lemma keeps_new_options: "keeps p (snd (new_options p options))"
  by (simp add: keeps_def new_options_def Let_def)

lemma keeps_preregister: "keeps p (preregister p parsed)"
  by (auto simp: keeps_def preregister_def cache_get_def cache_put_def construct_def Let_def
      split: option.splits)

lemma keeps_merge: "keeps p (snd (merge p u r ps))"
  by (auto simp: keeps_def merge_def cache_get_def cache_put_def construct_def Let_def
      split: option.splits)

lemma keeps_ref: "keeps p (snd (fromPotionJSON_ref U p r))"
proof -
  have "keeps p (snd (fetch U (snd (new_options p options)) u fo pg))" for options u fo pg
    using keeps_new_options keeps_fetch by (rule keeps_trans)
  then show ?thesis
    by (simp add: fromPotionJSON_ref_def Let_def split_beta split: sum.splits)
qed

lemma keeps_items:
  assumes "\<And>x p. x \<in> set xs \<Longrightarrow> keeps p (snd (fromPotionJSON U p x))"
  shows "keeps p (snd (fromPotionJSON_items U p xs))"
  using assms
proof (induction xs arbitrary: p)
  case Nil
  then show ?case by simp
next
  case (Cons x xs)
  have 1: "keeps p (snd (fromPotionJSON U p x))" using Cons.prems by simp
  have 2: "keeps (snd (fromPotionJSON U p x))
      (snd (fromPotionJSON_items U (snd (fromPotionJSON U p x)) xs))"
    by (rule Cons.IH) (use Cons.prems in auto)
  show ?case using keeps_trans [OF 1 2] by (simp add: split_beta)
qed

lemma keeps_entries:
  assumes "\<And>k v p. (k, v) \<in> set kvs \<Longrightarrow> keeps p (snd (fromPotionJSON U p v))"
  shows "keeps p (snd (fromPotionJSON_entries U b p kvs))"
  using assms
proof (induction kvs arbitrary: p)
  case Nil
  then show ?case by simp
next
  case (Cons kv kvs)
  obtain k v where kv: "kv = (k, v)" by (cases kv)
  have 1: "keeps p (snd (fromPotionJSON U p v))" using Cons.prems [of k v p] kv by simp
  have 2: "keeps q (snd (fromPotionJSON_entries U b q kvs))" for q
    by (rule Cons.IH) (use Cons.prems in auto)
  show ?case using keeps_trans [OF 1 2] 2 kv by (auto simp: split_beta)
qed

lemma keeps_fromPotionJSON: "keeps p (snd (fromPotionJSON U p j))"
proof (induction j arbitrary: p)
  case (JArr xs)
  then show ?case using keeps_items [of xs U p] by (simp add: split_beta)
next
  case (JObj kvs)
  have e: "keeps q (snd (fromPotionJSON_entries U b q kvs))" for q b
    using JObj by (intro keeps_entries) (auto simp: snds.simps)
  show ?case
    using e keeps_ref keeps_trans [OF keeps_preregister e]
    by (auto simp: split_beta split: branch.splits sum.splits)
qed simp_all

lemma keeps_await: "quiet h \<Longrightarrow> keeps p (snd (await h p f))"
proof -
  assume q: "quiet h"
  have 1: "keeps p (snd (h p n))" for n using q by (simp add: quiet_def)
  have 2: "keeps q (q\<lparr>pendingGETRequests := m\<rparr>)" for q m by (simp add: keeps_def)
  show ?thesis
    using 1 keeps_trans [OF 1 2]
    by (cases f) (auto simp: await_def on_fulfilled_def on_rejected_def split_beta split: sum.splits)
qed

lemma keeps_complete_all:
  assumes "\<And>t p. t \<in> set ts \<Longrightarrow> keeps p (snd (complete h p t))"
  shows "keeps p (snd (complete_all h p ts))"
  using assms
proof (induction ts arbitrary: p)
  case Nil
  then show ?case by simp
next
  case (Cons t ts)
  have 1: "keeps p (snd (complete h p t))" using Cons.prems by simp
  have 2: "keeps q (snd (complete_all h q ts))" for q
    by (rule Cons.IH) (use Cons.prems in auto)
  show ?case using keeps_trans [OF 1 2] by (auto simp: split_beta)
qed

lemma keeps_complete_entries:
  assumes "\<And>k t p. (k, t) \<in> set kts \<Longrightarrow> keeps p (snd (complete h p t))"
  shows "keeps p (snd (complete_entries h p kts))"
  using assms
proof (induction kts arbitrary: p)
  case Nil
  then show ?case by simp
next
  case (Cons kt kts)
  obtain k t where kt: "kt = (k, t)" by (cases kt)
  have 1: "keeps p (snd (complete h p t))" using Cons.prems [of k t p] kt by simp
  have 2: "keeps q (snd (complete_entries h q kts))" for q
    by (rule Cons.IH) (use Cons.prems in auto)
  show ?case using keeps_trans [OF 1 2] kt by (auto simp: split_beta)
qed

lemma keeps_complete: "quiet h \<Longrightarrow> keeps p (snd (complete h p t))"
proof (induction t arbitrary: p)
  case (Await f)
  then show ?case by (simp add: keeps_await)
next
  case (All ts)
  then have "keeps p (snd (complete_all h p ts))" by (intro keeps_complete_all) auto
  then show ?case by (auto simp: split_beta split: option.splits)
next
  case (ItemT u r ps kts)
  then have e: "keeps p (snd (complete_entries h p kts))"
    by (intro keeps_complete_entries) (auto simp: snds.simps)
  show ?case using e keeps_trans [OF e keeps_merge]
    by (auto simp: split_beta split: option.splits)
next
  case (ObjT kts)
  then have e: "keeps p (snd (complete_entries h p kts))"
    by (intro keeps_complete_entries) (auto simp: snds.simps)
  then show ?case by (auto simp: split_beta split: option.splits)
qed simp_all

lemma keeps_decode: "quiet h \<Longrightarrow> keeps p (snd (decode U h p j))"
  using keeps_trans [OF keeps_fromPotionJSON keeps_complete]
  by (simp add: decode_def split_beta)

lemma keeps_paginate_step: "keeps p (snd (paginate_step p c header d))"
  by (auto simp: keeps_def paginate_step_def new_Pagination_def update_def Let_def
      split: option.splits)

lemma keeps_chain: "quiet h \<Longrightarrow> keeps p (snd (chain U h p c outcome))"
proof (cases outcome)
  case (Inl e)
  then show ?thesis by (simp add: chain_def)
next
  case (Inr resp)
  assume q: "quiet h"
  obtain r p' where d: "decode U h p (body resp) = (r, p')"
    by (cases "decode U h p (body resp)")
  have k: "keeps p p'" using keeps_decode [OF q, of p U "body resp"] d by simp
  show ?thesis
  proof (cases r)
    case (Inl e)
    then show ?thesis using Inr d k by (simp add: chain_def)
  next
    case (Inr v)
    then show ?thesis
      using \<open>outcome = Inr resp\<close> d keeps_trans [OF k keeps_paginate_step]
      by (simp add: chain_def)
  qed
qed

lemma quiet_h0: "quiet h0"
  by (simp add: quiet_def h0_def)

text \<open>
  The environment in which no call is answered well is quiet, and so is an environment
  that settles a call by the chain of this client on an answer of the transport, in a quiet
  environment: the chains of the client never evict an instance and never write to an
  object of a caller.
\<close>

lemma quiet_chain: "quiet h \<Longrightarrow> quiet (\<lambda>q n. chain U h q (c q n) (answer q n))"
  using keeps_chain by (simp add: quiet_def)

lemma quiet_h1: "quiet h1"
  using keeps_chain [OF quiet_h0] quiet_h0 by (simp add: quiet_def h1_def)

lemma parseURI_uri:
  assumes "parseURI U p u0 = Inr x" and "parseURI U q u0 = Inr y" and "prefix q = prefix p"
  shows "uri y = uri x"
  using assms
  by (auto simp: parseURI_def Let_def split: sum.splits option.splits if_splits)

lemma preregister_cached:
  "\<exists>a. cache (preregister p parsed) (uri parsed) = Some a
     \<and> (cache p (uri parsed) = None \<or> cache p (uri parsed) = Some a)"
  by (auto simp: preregister_def cache_get_def cache_put_def construct_def Let_def
      split: option.splits)

lemma keeps_cache: "keeps p q \<Longrightarrow> cache p u = Some a \<Longrightarrow> cache q u = Some a"
  by (simp add: keeps_def)

lemma keeps_prefix: "keeps p q \<Longrightarrow> prefix q = prefix p"
  by (simp add: keeps_def)

lemma preregister_miss:
  assumes "cache_get p (uri parsed) = None"
  shows "cache_get (preregister p parsed) (uri parsed) = Some (next_item p)"
    and "items (preregister p parsed) (next_item p) = \<lparr>ctor = resource parsed, props = []\<rparr>"
    and "next_item (preregister p parsed) = Suc (next_item p)"
    and "\<forall>b. b \<noteq> next_item p \<longrightarrow> items (preregister p parsed) b = items p b"
  using assms
  by (simp_all add: preregister_def cache_get_def cache_put_def construct_def Let_def assign_def)

lemma preregister_hit:
  assumes "cache_get p (uri parsed) = Some b"
  shows "preregister p parsed = p"
  using assms by (simp add: preregister_def)

lemma resource_task:
  assumes q: "quiet h"
    and u: "string_prop kvs ''$uri'' = Some u0"
    and s: "fromPotionJSON U p (JObj kvs) = (t, p0)"
    and k: "keeps p0 q0"
    and c: "complete h q0 t = (Inr v, p')"
  shows "\<exists>parsed a ts krs m.
      parseURI U p u0 = Inr parsed
    \<and> fromPotionJSON_entries U True (preregister p parsed) kvs = (ts, p0)
    \<and> t = ItemT (uri parsed) (resource parsed)
          [(''$uri'', VStr (uri parsed)), (''$id'', item_id (params parsed))] ts
    \<and> complete_entries h q0 ts = (krs, m)
    \<and> first_rejection (awaited krs) = None
    \<and> cache (preregister p parsed) (uri parsed) = Some a
    \<and> cache p0 (uri parsed) = Some a
    \<and> cache m (uri parsed) = Some a
    \<and> v = VItem a
    \<and> p' = m\<lparr>items := (items m)
               (a := (items m a)\<lparr>props := assign (props (items m a))
                  (pairsToObject ([(''$uri'', VStr (uri parsed)),
                                   (''$id'', item_id (params parsed))] @ fulfilled krs))\<rparr>)\<rparr>"
proof (cases "parseURI U p u0")
  case (Inl e)
  then show ?thesis using s c u by (auto simp: branch_of_uri)
next
  case (Inr parsed)
  define pr where "pr = preregister p parsed"
  obtain ts where e: "fromPotionJSON_entries U True pr kvs = (ts, p0)"
    and t: "t = ItemT (uri parsed) (resource parsed)
        [(''$uri'', VStr (uri parsed)), (''$id'', item_id (params parsed))] ts"
    using s u Inr unfolding pr_def by (auto simp: branch_of_uri split: prod.splits)
  obtain krs q' where ce: "complete_entries h q0 ts = (krs, q')"
    by (cases "complete_entries h q0 ts")
  have k1: "keeps pr p0"
    using keeps_entries [of kvs U pr True] keeps_fromPotionJSON e by simp
  have k2: "keeps q0 q'"
    using keeps_complete_entries [of ts h q0] keeps_complete [OF q] ce by simp
  obtain a where a: "cache pr (uri parsed) = Some a"
    using preregister_cached [of p parsed] unfolding pr_def by blast
  have a0: "cache p0 (uri parsed) = Some a" using keeps_cache [OF k1 a(1)] .
  have am: "cache q' (uri parsed) = Some a"
    using keeps_cache [OF k2 keeps_cache [OF k a0]] .
  have r: "first_rejection (awaited krs) = None"
    using c t ce by (simp split: option.splits)
  have "v = VItem a \<and> p' = q'\<lparr>items := (items q')
               (a := (items q' a)\<lparr>props := assign (props (items q' a))
                  (pairsToObject ([(''$uri'', VStr (uri parsed)),
                                   (''$id'', item_id (params parsed))] @ fulfilled krs))\<rparr>)\<rparr>"
    using c t ce r am by (auto simp: merge_def cache_get_def)
  then show ?thesis using Inr a a0 am e t ce r unfolding pr_def by blast
qed


lemma distinct_pairsToObject: "distinct (map fst (pairsToObject kvs))"
proof -
  have "distinct (map fst acc) \<Longrightarrow>
      distinct (map fst (fold (\<lambda>(k, v) t. AList.update k v t) kvs acc))" for acc :: "(string \<times> 'a) list"
    by (induction kvs arbitrary: acc) (auto simp: distinct_update)
  then show ?thesis by (simp add: pairsToObject_def assign_def)
qed

lemma merged_props:
  "get_prop (assign old (pairsToObject new)) k
     = (case get_prop (pairsToObject new) k of Some v \<Rightarrow> Some v | None \<Rightarrow> get_prop old k)"
  by (rule get_prop_assign) (rule distinct_pairsToObject)

text \<open>An identifier beyond \<open>2 ^ 53\<close> is the nearest Number.\<close>

lemma item_id_examples:
  "item_id [''12''] = VNum 12"
  "item_id [''12a''] = VStr ''12a''"
  "item_id [''9007199254740993''] = VNum 9007199254740992"
  "item_id [] = VUndefined"
  by (simp_all add: item_id_def all_digits_def is_digit_def parseInt_def digits_value_def
      nearest_double_def Let_def)



lemma client4_facts:
  "fst (decode U0 h0 client0 widget1) = Inr (VItem 0)"
  "cache_get client4 ''/widget/1'' = Some 0"
  "props (items client4 0)
     = [(''$uri'', VStr ''/widget/1''), (''$id'', VNum 1), (''firstName'', VStr ''Ann'')]"
  by (simp_all add: client4_def ex_defs)

lemma client5_facts:
  "fst (decode U0 h0 client4 widget2) = Inr (VItem 0)"
  "cache_get client5 ''/widget/1'' = Some 0"
  "props (items client5 0)
     = [(''$uri'', VStr ''/widget/1''), (''$id'', VNum 1), (''firstName'', VStr ''Ann''),
        (''lastName'', VStr ''Lee'')]"
  by (simp_all add: client5_def client4_def widget2_def ex_defs)




text \<open>
  An example with the same resource twice in one payload: both elements are the same
  instance, which holds the properties of both objects.
\<close>

lemma same_instance_twice_example:
  "fst (decode U0 h0 client0 (JArr [widget1, widget2])) = Inr (VArr [VItem 0, VItem 0])"
  "props (items (snd (decode U0 h0 client0 (JArr [widget1, widget2]))) 0)
     = [(''$uri'', VStr ''/widget/1''), (''$id'', VNum 1), (''firstName'', VStr ''Ann''),
        (''lastName'', VStr ''Lee'')]"
  by (simp_all add: widget2_def ex_defs)

text \<open>
  An example with a reference: decoding the second widget fetches the first one once, the
  property holds the instance of the first widget, and a later decode of the first widget
  returns that same instance.
\<close>

lemma shared_reference_example:
  "fst (decode U0 h1 client0 widget3) = Inr (VItem 0)"
  "map url (requests client6) = [''http://h/api/widget/1'']"
  "props (items client6 0)
     = [(''$uri'', VStr ''/widget/2''), (''$id'', VNum 2), (''bestFriend'', VItem 1)]"
  "props (items client6 1)
     = [(''$uri'', VStr ''/widget/1''), (''$id'', VNum 1), (''firstName'', VStr ''Ann'')]"
  "fst (decode U0 h1 client6 widget1) = Inr (VItem 1)"
  by (simp_all add: client6_def widget3_def ex_defs new_options_def fromPotionJSON_ref_def)

text \<open>
  Claim C10. \<open>fetch\<close> never mutates the options object of its caller: it works on a copy, and
  with \<open>paginate\<close> the defaults \<open>page = 1\<close> and \<open>perPage = 25\<close> are merged into a new search
  object, stored in the copy, so that after the call, and after the chain on its transport
  call has run, the options object of the caller and its search object hold what they held
  before.
\<close>

theorem fetch_leaves_options:
  assumes "opt < next_options p"
    and "\<forall>s. search (option_objs p opt) = Some s \<longrightarrow> s < next_search p"
  shows "keeps p (snd (fetch U p u (Some opt) pg))
     \<and> option_objs (snd (fetch U p u (Some opt) pg)) opt = option_objs p opt
     \<and> (\<forall>s. search (option_objs p opt) = Some s \<longrightarrow>
           search_objs (snd (fetch U p u (Some opt) pg)) s = search_objs p s)
     \<and> (paginate (option_objs p opt) \<longrightarrow>
           option_objs (snd (fetch U p u (Some opt) pg)) (next_options p)
             = (option_objs p opt)\<lparr>search := Some (next_search p)\<rparr>
         \<and> search_objs (snd (fetch U p u (Some opt) pg)) (next_search p)
             = assign [(''page'', ONum 1), (''perPage'', ONum 25)]
                 (case search (option_objs p opt) of None \<Rightarrow> [] | Some s \<Rightarrow> search_objs p s))
     \<and> (\<not> paginate (option_objs p opt) \<longrightarrow>
           option_objs (snd (fetch U p u (Some opt) pg)) (next_options p) = option_objs p opt)
     \<and> (quiet h \<longrightarrow>
          (\<forall>q c outcome. keeps (snd (fetch U p u (Some opt) pg)) q \<longrightarrow>
             option_objs (snd (chain U h q c outcome)) opt = option_objs p opt
           \<and> (\<forall>s. search (option_objs p opt) = Some s \<longrightarrow>
                 search_objs (snd (chain U h q c outcome)) s = search_objs p s)))"
proof (intro conjI impI allI)
  let ?p' = "snd (fetch U p u (Some opt) pg)"
  show k: "keeps p ?p'" by (rule keeps_fetch)
  show "option_objs ?p' opt = option_objs p opt"
    using k assms by (simp add: keeps_def)
  show "search_objs ?p' s = search_objs p s" if "search (option_objs p opt) = Some s" for s
    using k assms that by (simp add: keeps_def)
  show "option_objs ?p' (next_options p) = (option_objs p opt)\<lparr>search := Some (next_search p)\<rparr>"
    if "paginate (option_objs p opt)"
    using that by (simp add: fetch_paginate spread_options_def Let_def)
  show "search_objs ?p' (next_search p)
      = assign [(''page'', ONum 1), (''perPage'', ONum 25)]
          (case search (option_objs p opt) of None \<Rightarrow> [] | Some s \<Rightarrow> search_objs p s)"
    if "paginate (option_objs p opt)"
    using that by (simp add: fetch_paginate spread_options_def Let_def)
  show "option_objs ?p' (next_options p) = option_objs p opt"
    if "\<not> paginate (option_objs p opt)"
    using that
    by (auto simp: fetch_def Let_def spread_options_def fetch_request_def
        split: option.splits prod.splits)
  fix q c outcome
  assume q: "quiet h" and kq: "keeps ?p' q"
  have kk: "keeps p (snd (chain U h q c outcome))"
    using keeps_trans [OF k keeps_trans [OF kq keeps_chain [OF q]]] .
  show "option_objs (snd (chain U h q c outcome)) opt = option_objs p opt"
    using kk assms by (simp add: keeps_def)
  show "search_objs (snd (chain U h q c outcome)) s = search_objs p s"
    if "search (option_objs p opt) = Some s" for s
    using kk assms that by (simp add: keeps_def)
qed

lemma client1_options:
  "next_options client1 = 4" "option_objs client1 3 = no_options\<lparr>o_method := Some ''GET'', paginate := True, search := Some 0\<rparr>"
  "search_objs client1 0 = [(''page'', ONum 1), (''perPage'', ONum 25)]"
  by (simp_all add: client1_def page1_def client0_def U0_def no_options_def h0_def run_defs)

theorem fetch_leaves_options_witness:
  "3 < next_options client1
   \<and> search (option_objs client1 3) = Some 0 \<and> 0 < next_search client1
   \<and> paginate (option_objs client1 3)
   \<and> option_objs (snd (fetch U0 client1 ''/widget'' (Some 3) None)) 3 = option_objs client1 3
   \<and> search_objs (snd (fetch U0 client1 ''/widget'' (Some 3) None)) 0
       = [(''page'', ONum 1), (''perPage'', ONum 25)]
   \<and> search (option_objs (snd (fetch U0 client1 ''/widget'' (Some 3) None)) 4) = Some 1
   \<and> search_objs (snd (fetch U0 client1 ''/widget'' (Some 3) None)) 1
       = [(''page'', ONum 1), (''perPage'', ONum 25)]"
proof -
  have a: "3 < next_options client1"
    "\<forall>s. search (option_objs client1 3) = Some s \<longrightarrow> s < next_search client1"
    using client1_options client1_facts by (simp_all add: no_options_def)
  have b: "search (option_objs client1 3) = Some 0" "paginate (option_objs client1 3)"
    "0 < next_search client1"
    using client1_options client1_facts by (simp_all add: no_options_def)
  show ?thesis
    using fetch_leaves_options [OF a, of U0 "''/widget''" None h0] a(1) b client1_options
      client1_facts(3)
    by (simp add: assign_def)
qed

end
